theory Spec2Isabelle
  imports Complex_Main "HOL-Library.Signed_Division"
begin

section \<open>Common data model\<close>

text \<open>
  The three programs (\<^verbatim>\<open>wave_billiard.c\<close>, \<^verbatim>\<open>schrodinger.c\<close>, \<^verbatim>\<open>wave_3d.c\<close>) integrate a
  field on an \<open>NX \<times> NY\<close> lattice. C \<^verbatim>\<open>int\<close> indices are modelled as \<^typ>\<open>int\<close> (all indices stay
  far below \<open>2^31\<close>), C \<^verbatim>\<open>double\<close> values as \<^typ>\<open>real\<close> (exact arithmetic, no rounding),
  and the C remainder \<^verbatim>\<open>%\<close> as \<open>smod\<close>, which truncates towards zero as C does.

  \<^verbatim>\<open>double *phi[NX]\<close> is addressed by the index pair: \<^verbatim>\<open>phi[i][j]\<close> is \<open>phi (i, j)\<close>, and the
  assignment \<^verbatim>\<open>phi[i][j] = v\<close> is \<open>phi((i, j) := v)\<close>. \<^verbatim>\<open>double phi[NX*NY]\<close> of
  \<^verbatim>\<open>wave_3d.c\<close> is a flat buffer addressed by \<open>i*NY+j\<close>. \<^verbatim>\<open>short int\<close> mask entries are
  integers, tested against zero. A loop \<^verbatim>\<open>for (i=a; i<b; i++)\<close> is a fold over the index list
  \<open>[a..b-1]\<close>; the OpenMP pragma is not modelled, the loops run in their sequential C order.
\<close>

type_synonym grid = "int \<times> int \<Rightarrow> real"
type_synonym mask = "int \<times> int \<Rightarrow> int"
type_synonym buf = "int \<Rightarrow> real"
type_synonym flat_mask = "int \<Rightarrow> int"

text \<open>
  The boundary-condition selector \<^verbatim>\<open>B_COND\<close>. Its list of values lives in
  \<^verbatim>\<open>global_pdes.c\<close>; these are the four the sources name.
\<close>

datatype bcond = BC_DIRICHLET | BC_PERIODIC | BC_ABSORBING | BC_VPER_HABS

text \<open>
  The compile-time constants (\<^verbatim>\<open>#define\<close>) and global variables the stepping code of the three
  programs reads. Each program reads only those its own source defines.
\<close>

record config =
  courant2 :: real
  KAPPA :: real
  GAMMA :: real
  FLOOR :: bool
  VMAX :: real
  B_COND :: bcond
  intstep :: real
  intstep1 :: real
  TWOSPEEDS :: bool
  OSCILLATE_LEFT :: bool
  AMPLITUDE :: real
  OMEGA :: real
  KAPPA_SIDES :: real
  GAMMA_SIDES :: real
  KAPPA_TOPBOT :: real
  GAMMA_TOPBOT :: real

text \<open>
  The debugging clamp, two sequential tests as in the source:
  \<^verbatim>\<open>if (v > VMAX) v = VMAX; if (v < -VMAX) v = -VMAX;\<close>
\<close>

definition floor_clamp :: "real \<Rightarrow> real \<Rightarrow> real" where
  "floor_clamp vmax v =
     (let v1 = (if v > vmax then vmax else v)
      in if v1 < - vmax then - vmax else v1)"

text \<open>
  A loop whose body can fail (read an unassigned variable, read out of bounds, divide by
  zero): the first failing iteration makes the whole loop fail.
\<close>

fun for_each :: "'a list \<Rightarrow> ('a \<Rightarrow> 's \<Rightarrow> 's option) \<Rightarrow> 's \<Rightarrow> 's option" where
  "for_each [] f s = Some s"
| "for_each (k # ks) f s = (case f k s of None \<Rightarrow> None | Some s' \<Rightarrow> for_each ks f s')"

text \<open>
  Wrapped neighbour indices, as written in the periodic branches:
  \<^verbatim>\<open>iplus = (i+1) % NX; iminus = (i-1) % NX; if (iminus < 0) iminus += NX;\<close>
\<close>

definition wrap_plus :: "int \<Rightarrow> int \<Rightarrow> int" where
  "wrap_plus N i = (i + 1) smod N"

definition wrap_minus :: "int \<Rightarrow> int \<Rightarrow> int" where
  "wrap_minus N i = (let m = (i - 1) smod N in if m < 0 then m + N else m)"

text \<open>
  Clamped neighbour indices, as written in the Dirichlet branches:
  \<^verbatim>\<open>iplus = (i+1); if (iplus == NX) iplus = NX-1; iminus = (i-1); if (iminus == -1) iminus = 0;\<close>
\<close>

definition clamp_plus :: "int \<Rightarrow> int \<Rightarrow> int" where
  "clamp_plus N i = (let p = i + 1 in if p = N then N - 1 else p)"

definition clamp_minus :: "int \<Rightarrow> int" where
  "clamp_minus i = (let m = i - 1 in if m = - 1 then 0 else m)"

section \<open>wave\_billiard.c\<close>

text \<open>
  Body of the double loop of \<^verbatim>\<open>evolve_wave\<close> at cell \<open>(i, j)\<close>. The arrays \<open>phi\<close> and \<open>psi\<close> are
  read and written in place: the Laplacian reads the current contents of \<open>phi\<close>, which for
  cells visited earlier in the same call are already the new values.
\<close>

fun wb_cell :: "config \<Rightarrow> int \<Rightarrow> int \<Rightarrow> mask \<Rightarrow> int \<times> int \<Rightarrow> grid \<times> grid \<Rightarrow> grid \<times> grid" where
  "wb_cell c NX NY xy_in (i, j) (phi, psi) =
     (if xy_in (i, j) \<noteq> 0 then
        (let iplus = wrap_plus NX i;
             iminus = wrap_minus NX i;
             jplus = wrap_plus NY j;
             jminus = wrap_minus NY j;
             delta = phi (iplus, j) + phi (iminus, j) + phi (i, jplus) + phi (i, jminus)
                       - 4 * phi (i, j);
             x = phi (i, j);
             y = psi (i, j);
             phi1 = phi((i, j) := - y + 2 * x + courant2 c * delta - KAPPA c * x - GAMMA c * (x - y));
             psi1 = psi((i, j) := x)
         in if FLOOR c
            then (phi1((i, j) := floor_clamp (VMAX c) (phi1 (i, j))),
                  psi1((i, j) := floor_clamp (VMAX c) (psi1 (i, j))))
            else (phi1, psi1))
      else (phi, psi))"

definition wb_evolve_wave :: "config \<Rightarrow> int \<Rightarrow> int \<Rightarrow> mask \<Rightarrow> grid \<times> grid \<Rightarrow> grid \<times> grid" where
  "wb_evolve_wave c NX NY xy_in s =
     fold (\<lambda>i. fold (\<lambda>j. wb_cell c NX NY xy_in (i, j)) [0..NY - 1]) [0..NX - 1] s"

text \<open>
  \<^verbatim>\<open>compute_variance\<close> of \<^verbatim>\<open>wave_billiard.c\<close>: both loops start at index 1. The accumulator is
  the pair \<open>(n, variance)\<close>; \<open>psi\<close> is a parameter the body never reads.
\<close>

fun wb_variance_cell :: "grid \<Rightarrow> mask \<Rightarrow> int \<times> int \<Rightarrow> int \<times> real \<Rightarrow> int \<times> real" where
  "wb_variance_cell phi xy_in (i, j) (n, variance) =
     (if xy_in (i, j) \<noteq> 0 then (n + 1, variance + phi (i, j) * phi (i, j)) else (n, variance))"

definition wb_compute_variance :: "int \<Rightarrow> int \<Rightarrow> grid \<Rightarrow> grid \<Rightarrow> mask \<Rightarrow> real" where
  "wb_compute_variance NX NY phi psi xy_in =
     (case fold (\<lambda>i. fold (\<lambda>j. wb_variance_cell phi xy_in (i, j)) [1..NY - 1]) [1..NX - 1] (0, 0)
      of (n, variance) \<Rightarrow> variance / of_int (if n = 0 then 1 else n))"

text \<open>
  \<^verbatim>\<open>init_wave\<close> and \<^verbatim>\<open>add_drop_to_wave\<close>. \<^verbatim>\<open>ij_to_xy\<close> and \<^verbatim>\<open>xy_in_billiard\<close> are defined in
  \<^verbatim>\<open>sub_wave.c\<close>, so they are parameters here: the map from a cell to its coordinates, and the
  domain-membership test. \<^verbatim>\<open>init_wave\<close> fills the mask as well, so the state is the triple
  \<open>(phi, psi, xy_in)\<close>.
\<close>

fun wb_init_cell ::
  "(int \<Rightarrow> int \<Rightarrow> real \<times> real) \<Rightarrow> (real \<Rightarrow> real \<Rightarrow> int) \<Rightarrow> real \<Rightarrow> real \<Rightarrow> int \<times> int
     \<Rightarrow> grid \<times> grid \<times> mask \<Rightarrow> grid \<times> grid \<times> mask" where
  "wb_init_cell ij_to_xy xy_in_billiard x y (i, j) (phi, psi, xy_in) =
     (let xy = ij_to_xy i j;
          dist2 = (fst xy - x) * (fst xy - x) + (snd xy - y) * (snd xy - y)
      in (phi((i, j) := (2 / 10) * exp (- dist2 / (1 / 1000)) * cos (- sqrt dist2 / (1 / 100))),
          psi((i, j) := 0),
          xy_in((i, j) := xy_in_billiard (fst xy) (snd xy))))"

definition wb_init_wave ::
  "(int \<Rightarrow> int \<Rightarrow> real \<times> real) \<Rightarrow> (real \<Rightarrow> real \<Rightarrow> int) \<Rightarrow> int \<Rightarrow> int \<Rightarrow> real \<Rightarrow> real
     \<Rightarrow> grid \<times> grid \<times> mask \<Rightarrow> grid \<times> grid \<times> mask" where
  "wb_init_wave ij_to_xy xy_in_billiard NX NY x y s =
     fold (\<lambda>i. fold (\<lambda>j. wb_init_cell ij_to_xy xy_in_billiard x y (i, j)) [0..NY - 1]) [0..NX - 1] s"

fun wb_add_drop_cell ::
  "(int \<Rightarrow> int \<Rightarrow> real \<times> real) \<Rightarrow> real \<Rightarrow> real \<Rightarrow> real \<Rightarrow> int \<times> int \<Rightarrow> grid \<times> grid \<Rightarrow> grid \<times> grid" where
  "wb_add_drop_cell ij_to_xy factor x y (i, j) (phi, psi) =
     (let xy = ij_to_xy i j;
          dist2 = (fst xy - x) * (fst xy - x) + (snd xy - y) * (snd xy - y)
      in (phi((i, j) := phi (i, j)
                 + (2 / 10) * factor * exp (- dist2 / (1 / 1000)) * cos (- sqrt dist2 / (1 / 100))),
          psi))"

definition wb_add_drop_to_wave ::
  "(int \<Rightarrow> int \<Rightarrow> real \<times> real) \<Rightarrow> int \<Rightarrow> int \<Rightarrow> real \<Rightarrow> real \<Rightarrow> real \<Rightarrow> grid \<times> grid \<Rightarrow> grid \<times> grid" where
  "wb_add_drop_to_wave ij_to_xy NX NY factor x y s =
     fold (\<lambda>i. fold (\<lambda>j. wb_add_drop_cell ij_to_xy factor x y (i, j)) [0..NY - 1]) [0..NX - 1] s"

section \<open>schrodinger.c\<close>

text \<open>
  The neighbour indices of \<^verbatim>\<open>evolve_wave_half\<close>. The source assigns them under
  \<^verbatim>\<open>if ((B_COND == BC_DIRICHLET)||(B_COND == BC_ABSORBING))\<close> and
  \<^verbatim>\<open>else if (B_COND == BC_PERIODIC)\<close>; under any other policy the four variables are read
  without having been assigned, which is \<open>None\<close> here.
\<close>

definition sch_neighbours :: "bcond \<Rightarrow> int \<Rightarrow> int \<Rightarrow> int \<Rightarrow> int \<Rightarrow> (int \<times> int \<times> int \<times> int) option" where
  "sch_neighbours bc NX NY i j =
     (if bc = BC_DIRICHLET \<or> bc = BC_ABSORBING
      then Some (clamp_plus NX i, clamp_minus i, clamp_plus NY j, clamp_minus j)
      else if bc = BC_PERIODIC
      then Some (wrap_plus NX i, wrap_minus NX i, wrap_plus NY j, wrap_minus NY j)
      else None)"

text \<open>
  The statement under \<^verbatim>\<open>/* evolve phi and psi */\<close>, for the values \<open>x\<close>, \<open>y\<close>, \<open>delta1\<close>,
  \<open>delta2\<close> computed before it. In the absorbing branch the right border reads column
  \<open>i-1\<close> and the upper border reads row \<open>j-1\<close>; on a grid with a single column or row these
  indices are \<open>-1\<close>, out of bounds, which is \<open>None\<close>. The left and lower borders read index 1,
  which exists whenever these branches are reached.
\<close>

fun sch_evolve_cell ::
  "config \<Rightarrow> int \<Rightarrow> int \<Rightarrow> grid \<Rightarrow> grid \<Rightarrow> int \<times> int \<Rightarrow> real \<Rightarrow> real \<Rightarrow> real \<Rightarrow> real
     \<Rightarrow> grid \<times> grid \<Rightarrow> (grid \<times> grid) option" where
  "sch_evolve_cell c NX NY phi_in psi_in (i, j) x y delta1 delta2 (phi_out, psi_out) =
     (if B_COND c \<noteq> BC_ABSORBING then
        Some (phi_out((i, j) := x - intstep c * delta2), psi_out((i, j) := y + intstep c * delta1))
      else if 0 < i \<and> i < NX - 1 \<and> 0 < j \<and> j < NY - 1 then
        Some (phi_out((i, j) := x - intstep c * delta2), psi_out((i, j) := y + intstep c * delta1))
      else if i = NX - 1 then
        (if i - 1 < 0 then None
         else Some (phi_out((i, j) := x - intstep1 c * (y - psi_in (i - 1, j))),
                    psi_out((i, j) := y + intstep1 c * (x - phi_in (i - 1, j)))))
      else if j = NY - 1 then
        (if j - 1 < 0 then None
         else Some (phi_out((i, j) := x - intstep1 c * (y - psi_in (i, j - 1))),
                    psi_out((i, j) := y + intstep1 c * (x - phi_in (i, j - 1)))))
      else if i = 0 then
        Some (phi_out((i, j) := x - intstep1 c * (y - psi_in (1, j))),
              psi_out((i, j) := y + intstep1 c * (x - phi_in (1, j))))
      else if j = 0 then
        Some (phi_out((i, j) := x - intstep1 c * (y - psi_in (i, 1))),
              psi_out((i, j) := y + intstep1 c * (x - phi_in (i, 1))))
      else Some (phi_out, psi_out))"

text \<open>The \<^verbatim>\<open>if (FLOOR)\<close> block, clamping the two output entries of the cell.\<close>

fun sch_floor :: "config \<Rightarrow> int \<times> int \<Rightarrow> grid \<times> grid \<Rightarrow> grid \<times> grid" where
  "sch_floor c (i, j) (phi_out, psi_out) =
     (if FLOOR c
      then (phi_out((i, j) := floor_clamp (VMAX c) (phi_out (i, j))),
            psi_out((i, j) := floor_clamp (VMAX c) (psi_out (i, j))))
      else (phi_out, psi_out))"

text \<open>Body of the double loop of \<^verbatim>\<open>evolve_wave_half\<close> at cell \<open>(i, j)\<close>.\<close>

fun sch_cell ::
  "config \<Rightarrow> int \<Rightarrow> int \<Rightarrow> grid \<Rightarrow> grid \<Rightarrow> mask \<Rightarrow> int \<times> int \<Rightarrow> grid \<times> grid \<Rightarrow> (grid \<times> grid) option" where
  "sch_cell c NX NY phi_in psi_in xy_in (i, j) s =
     (if xy_in (i, j) \<noteq> 0 then
        (case sch_neighbours (B_COND c) NX NY i j of
           None \<Rightarrow> None
         | Some (iplus, iminus, jplus, jminus) \<Rightarrow>
             (let delta1 = phi_in (iplus, j) + phi_in (iminus, j) + phi_in (i, jplus)
                             + phi_in (i, jminus) - 4 * phi_in (i, j);
                  delta2 = psi_in (iplus, j) + psi_in (iminus, j) + psi_in (i, jplus)
                             + psi_in (i, jminus) - 4 * psi_in (i, j);
                  x = phi_in (i, j);
                  y = psi_in (i, j)
              in map_option (sch_floor c (i, j))
                   (sch_evolve_cell c NX NY phi_in psi_in (i, j) x y delta1 delta2 s)))
      else Some s)"

text \<open>
  \<^verbatim>\<open>evolve_wave_half\<close> reads \<open>phi_in\<close>, \<open>psi_in\<close> and writes \<open>phi_out\<close>, \<open>psi_out\<close>; the result is
  the new contents of the two output arrays.
\<close>

definition sch_evolve_wave_half ::
  "config \<Rightarrow> int \<Rightarrow> int \<Rightarrow> grid \<Rightarrow> grid \<Rightarrow> grid \<Rightarrow> grid \<Rightarrow> mask \<Rightarrow> (grid \<times> grid) option" where
  "sch_evolve_wave_half c NX NY phi_in psi_in phi_out psi_out xy_in =
     for_each [0..NX - 1]
       (\<lambda>i. for_each [0..NY - 1] (\<lambda>j. sch_cell c NX NY phi_in psi_in xy_in (i, j)))
       (phi_out, psi_out)"

text \<open>
  \<^verbatim>\<open>evolve_wave\<close>: two half steps, the second with the roles of the array pairs exchanged.
  The state is \<open>(phi, psi, phi_tmp, psi_tmp)\<close>.
\<close>

fun sch_evolve_wave ::
  "config \<Rightarrow> int \<Rightarrow> int \<Rightarrow> mask \<Rightarrow> grid \<times> grid \<times> grid \<times> grid \<Rightarrow> (grid \<times> grid \<times> grid \<times> grid) option" where
  "sch_evolve_wave c NX NY xy_in (phi, psi, phi_tmp, psi_tmp) =
     (case sch_evolve_wave_half c NX NY phi psi phi_tmp psi_tmp xy_in of
        None \<Rightarrow> None
      | Some (phi_tmp', psi_tmp') \<Rightarrow>
          (case sch_evolve_wave_half c NX NY phi_tmp' psi_tmp' phi psi xy_in of
             None \<Rightarrow> None
           | Some (phi', psi') \<Rightarrow> Some (phi', psi', phi_tmp', psi_tmp')))"

text \<open>\<^verbatim>\<open>for (j=0; j<NVID; j++) evolve_wave(...)\<close>: \<open>n\<close> calls in a row.\<close>

fun sch_evolve_steps ::
  "nat \<Rightarrow> config \<Rightarrow> int \<Rightarrow> int \<Rightarrow> mask \<Rightarrow> grid \<times> grid \<times> grid \<times> grid \<Rightarrow> (grid \<times> grid \<times> grid \<times> grid) option" where
  "sch_evolve_steps 0 c NX NY xy_in s = Some s"
| "sch_evolve_steps (Suc n) c NX NY xy_in s =
     (case sch_evolve_wave c NX NY xy_in s of
        None \<Rightarrow> None
      | Some s' \<Rightarrow> sch_evolve_steps n c NX NY xy_in s')"

text \<open>
  \<^verbatim>\<open>compute_variance\<close> of \<^verbatim>\<open>schrodinger.c\<close>: both loops start at index 1. Here \<^verbatim>\<open>double\<close> is
  taken as \<open>real\<close>: products, sums and the quotient are exact.
\<close>

fun sch_variance_cell :: "grid \<Rightarrow> grid \<Rightarrow> mask \<Rightarrow> int \<times> int \<Rightarrow> int \<times> real \<Rightarrow> int \<times> real" where
  "sch_variance_cell phi psi xy_in (i, j) (n, variance) =
     (if xy_in (i, j) \<noteq> 0
      then (n + 1, variance + (phi (i, j) * phi (i, j) + psi (i, j) * psi (i, j)))
      else (n, variance))"

definition sch_compute_variance :: "int \<Rightarrow> int \<Rightarrow> grid \<Rightarrow> grid \<Rightarrow> mask \<Rightarrow> real" where
  "sch_compute_variance NX NY phi psi xy_in =
     (case fold (\<lambda>i. fold (\<lambda>j. sch_variance_cell phi psi xy_in (i, j)) [1..NY - 1]) [1..NX - 1] (0, 0)
      of (n, variance) \<Rightarrow> variance / of_int (if n = 0 then 1 else n))"







text \<open>
  \<^verbatim>\<open>init_coherent_state\<close>, with \<^verbatim>\<open>ij_to_xy\<close> and \<^verbatim>\<open>xy_in_billiard\<close> of \<^verbatim>\<open>sub_wave.c\<close> as
  parameters. Inside cells divide by \<open>scalex\<close> and its square; a zero \<open>scalex\<close> is \<open>None\<close>.
\<close>

fun sch_init_cell ::
  "(int \<Rightarrow> int \<Rightarrow> real \<times> real) \<Rightarrow> (real \<Rightarrow> real \<Rightarrow> int) \<Rightarrow> real \<Rightarrow> real \<Rightarrow> real \<Rightarrow> real \<Rightarrow> real
     \<Rightarrow> int \<times> int \<Rightarrow> grid \<times> grid \<times> mask \<Rightarrow> (grid \<times> grid \<times> mask) option" where
  "sch_init_cell ij_to_xy xy_in_billiard x y px py scalex (i, j) (phi, psi, xy_in) =
     (let scale2 = scalex * scalex;
          xy = ij_to_xy i j;
          xy_in1 = xy_in((i, j) := xy_in_billiard (fst xy) (snd xy))
      in if xy_in1 (i, j) \<noteq> 0 then
           (if scalex = 0 then None
            else
              (let dist2 = (fst xy - x) * (fst xy - x) + (snd xy - y) * (snd xy - y);
                   module0 = exp (- dist2 / scale2);
                   module = (if module0 < 1 / 10 ^ 15 then 1 / 10 ^ 15 else module0);
                   phase = (px * (fst xy - x) + py * (snd xy - y)) / scalex
               in Some (phi((i, j) := module * cos phase),
                        psi((i, j) := module * sin phase),
                        xy_in1)))
         else Some (phi((i, j) := 0), psi((i, j) := 0), xy_in1))"

definition sch_init_coherent_state ::
  "(int \<Rightarrow> int \<Rightarrow> real \<times> real) \<Rightarrow> (real \<Rightarrow> real \<Rightarrow> int) \<Rightarrow> int \<Rightarrow> int
     \<Rightarrow> real \<Rightarrow> real \<Rightarrow> real \<Rightarrow> real \<Rightarrow> real
     \<Rightarrow> grid \<times> grid \<times> mask \<Rightarrow> (grid \<times> grid \<times> mask) option" where
  "sch_init_coherent_state ij_to_xy xy_in_billiard NX NY x y px py scalex s =
     for_each [0..NX - 1]
       (\<lambda>i. for_each [0..NY - 1]
          (\<lambda>j. sch_init_cell ij_to_xy xy_in_billiard x y px py scalex (i, j)))
       s"

section \<open>wave\_3d.c\<close>

text \<open>
  \<^verbatim>\<open>evolve_wave_half\<close> of \<^verbatim>\<open>wave_3d.c\<close> is a bulk loop followed by one loop per edge of the
  grid. Every loop reads \<open>phi_in\<close>, \<open>psi_in\<close> and writes \<open>phi_out\<close>, \<open>psi_out\<close>; the state of each
  loop is the pair \<open>(phi_out, psi_out)\<close>. The absorbing branches of the source also compute a
  \<open>delta\<close> that they never use; it is left out. All the indices the source computes are within
  the buffers when \<open>NX \<ge> 2\<close> and \<open>NY \<ge> 2\<close> (the source has 1280 and 720); the statements about
  this function are made for such grids.
\<close>

fun w3_bulk_cell ::
  "config \<Rightarrow> int \<Rightarrow> buf \<Rightarrow> buf \<Rightarrow> flat_mask \<Rightarrow> buf \<Rightarrow> buf \<Rightarrow> int \<times> int \<Rightarrow> buf \<times> buf \<Rightarrow> buf \<times> buf" where
  "w3_bulk_cell c NY phi_in psi_in xy_in tcc tgamma (i, j) (phi_out, psi_out) =
     (if TWOSPEEDS c \<or> xy_in (i * NY + j) \<noteq> 0 then
        (let x = phi_in (i * NY + j);
             y = psi_in (i * NY + j);
             delta = phi_in ((i + 1) * NY + j) + phi_in ((i - 1) * NY + j)
                       + phi_in (i * NY + j + 1) + phi_in (i * NY + j - 1) - 4 * x
         in (phi_out(i * NY + j := - y + 2 * x + tcc (i * NY + j) * delta - KAPPA c * x
                                     - tgamma (i * NY + j) * (x - y)),
             psi_out(i * NY + j := x)))
      else (phi_out, psi_out))"

text \<open>Body of the left-boundary loop, at row \<open>j\<close> (cell \<open>(0, j)\<close>, flat index \<open>j\<close>).\<close>

fun w3_left_cell ::
  "config \<Rightarrow> int \<Rightarrow> int \<Rightarrow> int \<Rightarrow> buf \<Rightarrow> buf \<Rightarrow> flat_mask \<Rightarrow> buf \<Rightarrow> buf \<Rightarrow> buf \<Rightarrow> int
     \<Rightarrow> buf \<times> buf \<Rightarrow> buf \<times> buf" where
  "w3_left_cell c NX NY time phi_in psi_in xy_in tc tcc tgamma j (phi_out, psi_out) =
     (if OSCILLATE_LEFT c then (phi_out(j := AMPLITUDE c * cos (of_int time * OMEGA c)), psi_out)
      else if TWOSPEEDS c \<or> xy_in (j) \<noteq> 0 then
        (let x = phi_in (j);
             y = psi_in (j);
             phi1 =
               (case B_COND c of
                  BC_DIRICHLET \<Rightarrow>
                    (let delta = phi_in (NY + j) + phi_in (j + 1) + phi_in (j - 1) - 3 * x
                     in phi_out(j := - y + 2 * x + tcc (j) * delta - KAPPA c * x - tgamma (j) * (x - y)))
                | BC_PERIODIC \<Rightarrow>
                    (let delta = phi_in (NY + j) + phi_in ((NX - 1) * NY + j) + phi_in (j + 1) + phi_in (j - 1) - 4 * x
                     in phi_out(j := - y + 2 * x + tcc (j) * delta - KAPPA c * x - tgamma (j) * (x - y)))
                | BC_ABSORBING \<Rightarrow>
                    phi_out(j := x - tc (j) * (x - phi_in (NY + j)) - KAPPA_SIDES c * x - GAMMA_SIDES c * (x - y))
                | BC_VPER_HABS \<Rightarrow>
                    phi_out(j := x - tc (j) * (x - phi_in (NY + j)) - KAPPA_SIDES c * x - GAMMA_SIDES c * (x - y)))
         in (phi1, psi_out(j := x)))
      else (phi_out, psi_out))"

text \<open>Body of the right-boundary loop, at row \<open>j\<close> (cell \<open>(NX-1, j)\<close>).\<close>

fun w3_right_cell ::
  "config \<Rightarrow> int \<Rightarrow> int \<Rightarrow> int \<Rightarrow> buf \<Rightarrow> buf \<Rightarrow> flat_mask \<Rightarrow> buf \<Rightarrow> buf \<Rightarrow> buf \<Rightarrow> int
     \<Rightarrow> buf \<times> buf \<Rightarrow> buf \<times> buf" where
  "w3_right_cell c NX NY time phi_in psi_in xy_in tc tcc tgamma j (phi_out, psi_out) =
     (if TWOSPEEDS c \<or> xy_in ((NX - 1) * NY + j) \<noteq> 0 then
        (let x = phi_in ((NX - 1) * NY + j);
             y = psi_in ((NX - 1) * NY + j);
             phi1 =
               (case B_COND c of
                  BC_DIRICHLET \<Rightarrow>
                    (let delta = phi_in ((NX - 2) * NY + j) + phi_in ((NX - 1) * NY + j + 1) + phi_in ((NX - 1) * NY + j - 1) - 3 * x
                     in phi_out((NX - 1) * NY + j := - y + 2 * x + tcc ((NX - 1) * NY + j) * delta - KAPPA c * x - tgamma ((NX - 1) * NY + j) * (x - y)))
                | BC_PERIODIC \<Rightarrow>
                    (let delta = phi_in ((NX - 2) * NY + j) + phi_in j + phi_in ((NX - 1) * NY + j + 1) + phi_in ((NX - 1) * NY + j - 1) - 4 * x
                     in phi_out((NX - 1) * NY + j := - y + 2 * x + tcc ((NX - 1) * NY + j) * delta - KAPPA c * x - tgamma ((NX - 1) * NY + j) * (x - y)))
                | BC_ABSORBING \<Rightarrow>
                    phi_out((NX - 1) * NY + j := x - tc ((NX - 1) * NY + j) * (x - phi_in ((NX - 2) * NY + j)) - KAPPA_SIDES c * x - GAMMA_SIDES c * (x - y))
                | BC_VPER_HABS \<Rightarrow>
                    phi_out((NX - 1) * NY + j := x - tc ((NX - 1) * NY + j) * (x - phi_in ((NX - 2) * NY + j)) - KAPPA_SIDES c * x - GAMMA_SIDES c * (x - y)))
         in (phi1, psi_out((NX - 1) * NY + j := x)))
      else (phi_out, psi_out))"

text \<open>Body of the top-boundary loop, at column \<open>i\<close> (cell \<open>(i, NY-1)\<close>).\<close>

fun w3_top_cell ::
  "config \<Rightarrow> int \<Rightarrow> int \<Rightarrow> int \<Rightarrow> buf \<Rightarrow> buf \<Rightarrow> flat_mask \<Rightarrow> buf \<Rightarrow> buf \<Rightarrow> buf \<Rightarrow> int
     \<Rightarrow> buf \<times> buf \<Rightarrow> buf \<times> buf" where
  "w3_top_cell c NX NY time phi_in psi_in xy_in tc tcc tgamma i (phi_out, psi_out) =
     (if TWOSPEEDS c \<or> xy_in (i * NY + NY - 1) \<noteq> 0 then
        (let x = phi_in (i * NY + NY - 1);
             y = psi_in (i * NY + NY - 1);
             phi1 =
               (case B_COND c of
                  BC_DIRICHLET \<Rightarrow>
                    (let iplus = clamp_plus NX i;
                          iminus = clamp_minus i;
                          delta = phi_in (iplus * NY + NY - 1) + phi_in (iminus * NY + NY - 1) + phi_in (i * NY + NY - 2) - 3 * x
                     in phi_out(i * NY + NY - 1 := - y + 2 * x + tcc (i * NY + NY - 1) * delta - KAPPA c * x - tgamma (i * NY + NY - 1) * (x - y)))
                | BC_PERIODIC \<Rightarrow>
                    (let iplus = wrap_plus NX i;
                          iminus = wrap_minus NX i;
                          delta = phi_in (iplus * NY + NY - 1) + phi_in (iminus * NY + NY - 1) + phi_in (i * NY + NY - 2) + phi_in (i * NY) - 4 * x
                     in phi_out(i * NY + NY - 1 := - y + 2 * x + tcc (i * NY + NY - 1) * delta - KAPPA c * x - tgamma (i * NY + NY - 1) * (x - y)))
                | BC_ABSORBING \<Rightarrow>
                    phi_out(i * NY + NY - 1 := x - tc (i * NY + NY - 1) * (x - phi_in (i * NY + NY - 2)) - KAPPA_TOPBOT c * x - GAMMA_TOPBOT c * (x - y))
                | BC_VPER_HABS \<Rightarrow>
                    (let iplus = clamp_plus NX i;
                          iminus = clamp_minus i;
                          delta = phi_in (iplus * NY + NY - 1) + phi_in (iminus * NY + NY - 1) + phi_in (i * NY + NY - 2) + phi_in (i * NY) - 4 * x
                     in if i = 0
                        then phi_out(NY - 1 := x - tc (NY - 1) * (x - phi_in (1 * NY + NY - 1)) - KAPPA_SIDES c * x - GAMMA_SIDES c * (x - y))
                        else phi_out(i * NY + NY - 1 := - y + 2 * x + tcc (i * NY + NY - 1) * delta - KAPPA c * x - tgamma (i * NY + NY - 1) * (x - y))))
         in (phi1, psi_out(i * NY + NY - 1 := x)))
      else (phi_out, psi_out))"

text \<open>Body of the bottom-boundary loop, at column \<open>i\<close> (cell \<open>(i, 0)\<close>).\<close>

fun w3_bottom_cell ::
  "config \<Rightarrow> int \<Rightarrow> int \<Rightarrow> int \<Rightarrow> buf \<Rightarrow> buf \<Rightarrow> flat_mask \<Rightarrow> buf \<Rightarrow> buf \<Rightarrow> buf \<Rightarrow> int
     \<Rightarrow> buf \<times> buf \<Rightarrow> buf \<times> buf" where
  "w3_bottom_cell c NX NY time phi_in psi_in xy_in tc tcc tgamma i (phi_out, psi_out) =
     (if TWOSPEEDS c \<or> xy_in (i * NY) \<noteq> 0 then
        (let x = phi_in (i * NY);
             y = psi_in (i * NY);
             phi1 =
               (case B_COND c of
                  BC_DIRICHLET \<Rightarrow>
                    (let iplus = clamp_plus NX i;
                          iminus = clamp_minus i;
                          delta = phi_in (iplus * NY) + phi_in (iminus * NY) + phi_in (i * NY + 1) - 3 * x
                     in phi_out(i * NY := - y + 2 * x + tcc (i * NY) * delta - KAPPA c * x - tgamma (i * NY) * (x - y)))
                | BC_PERIODIC \<Rightarrow>
                    (let iplus = wrap_plus NX i;
                          iminus = wrap_minus NX i;
                          delta = phi_in (iplus * NY) + phi_in (iminus * NY) + phi_in (i * NY + 1) + phi_in (i * NY + NY - 1) - 4 * x
                     in phi_out(i * NY := - y + 2 * x + tcc (i * NY) * delta - KAPPA c * x - tgamma (i * NY) * (x - y)))
                | BC_ABSORBING \<Rightarrow>
                    phi_out(i * NY := x - tc (i * NY) * (x - phi_in (i * NY + 1)) - KAPPA_TOPBOT c * x - GAMMA_TOPBOT c * (x - y))
                | BC_VPER_HABS \<Rightarrow>
                    (let iplus = clamp_plus NX i;
                          iminus = clamp_minus i;
                          delta = phi_in (iplus * NY) + phi_in (iminus * NY) + phi_in (i * NY + 1) + phi_in (i * NY + NY - 1) - 4 * x
                     in if i = 0
                        then phi_out(0 := x - tc (0) * (x - phi_in (NY)) - KAPPA_SIDES c * x - GAMMA_SIDES c * (x - y))
                        else phi_out(i * NY := - y + 2 * x + tcc (i * NY) * delta - KAPPA c * x - tgamma (i * NY) * (x - y))))
         in (phi1, psi_out(i * NY := x)))
      else (phi_out, psi_out))"

text \<open>
  What the top-boundary loop assigns to \<^verbatim>\<open>phi_out[i*NY+NY-1]\<close> at column \<open>i\<close> when the guard
  holds: the right-hand side of the assignment in the branch of the \<^verbatim>\<open>switch\<close> that \<open>B_COND\<close>
  selects, a function of the input buffers only.
\<close>

definition w3_top_value :: "config \<Rightarrow> int \<Rightarrow> int \<Rightarrow> buf \<Rightarrow> buf \<Rightarrow> buf \<Rightarrow> buf \<Rightarrow> buf \<Rightarrow> int \<Rightarrow> real" where
  "w3_top_value c NX NY phi_in psi_in tc tcc tgamma i =
     (let k = i * NY + NY - 1; x = phi_in k; y = psi_in k in
      case B_COND c of
        BC_DIRICHLET \<Rightarrow>
          - y + 2 * x
            + tcc k * (phi_in (clamp_plus NX i * NY + NY - 1) + phi_in (clamp_minus i * NY + NY - 1)
                       + phi_in (i * NY + NY - 2) - 3 * x)
            - KAPPA c * x - tgamma k * (x - y)
      | BC_PERIODIC \<Rightarrow>
          - y + 2 * x
            + tcc k * (phi_in (wrap_plus NX i * NY + NY - 1) + phi_in (wrap_minus NX i * NY + NY - 1)
                       + phi_in (i * NY + NY - 2) + phi_in (i * NY) - 4 * x)
            - KAPPA c * x - tgamma k * (x - y)
      | BC_ABSORBING \<Rightarrow>
          x - tc k * (x - phi_in (i * NY + NY - 2)) - KAPPA_TOPBOT c * x - GAMMA_TOPBOT c * (x - y)
      | BC_VPER_HABS \<Rightarrow>
          (if i = 0
           then x - tc k * (x - phi_in (1 * NY + NY - 1)) - KAPPA_SIDES c * x - GAMMA_SIDES c * (x - y)
           else - y + 2 * x
                  + tcc k * (phi_in (clamp_plus NX i * NY + NY - 1) + phi_in (clamp_minus i * NY + NY - 1)
                             + phi_in (i * NY + NY - 2) + phi_in (i * NY) - 4 * x)
                  - KAPPA c * x - tgamma k * (x - y)))"

text \<open>Likewise for the bottom-boundary loop and \<^verbatim>\<open>phi_out[i*NY]\<close>.\<close>

definition w3_bottom_value :: "config \<Rightarrow> int \<Rightarrow> int \<Rightarrow> buf \<Rightarrow> buf \<Rightarrow> buf \<Rightarrow> buf \<Rightarrow> buf \<Rightarrow> int \<Rightarrow> real" where
  "w3_bottom_value c NX NY phi_in psi_in tc tcc tgamma i =
     (let k = i * NY; x = phi_in k; y = psi_in k in
      case B_COND c of
        BC_DIRICHLET \<Rightarrow>
          - y + 2 * x
            + tcc k * (phi_in (clamp_plus NX i * NY) + phi_in (clamp_minus i * NY)
                       + phi_in (i * NY + 1) - 3 * x)
            - KAPPA c * x - tgamma k * (x - y)
      | BC_PERIODIC \<Rightarrow>
          - y + 2 * x
            + tcc k * (phi_in (wrap_plus NX i * NY) + phi_in (wrap_minus NX i * NY)
                       + phi_in (i * NY + 1) + phi_in (i * NY + NY - 1) - 4 * x)
            - KAPPA c * x - tgamma k * (x - y)
      | BC_ABSORBING \<Rightarrow>
          x - tc k * (x - phi_in (i * NY + 1)) - KAPPA_TOPBOT c * x - GAMMA_TOPBOT c * (x - y)
      | BC_VPER_HABS \<Rightarrow>
          (if i = 0
           then x - tc k * (x - phi_in NY) - KAPPA_SIDES c * x - GAMMA_SIDES c * (x - y)
           else - y + 2 * x
                  + tcc k * (phi_in (clamp_plus NX i * NY) + phi_in (clamp_minus i * NY)
                             + phi_in (i * NY + 1) + phi_in (i * NY + NY - 1) - 4 * x)
                  - KAPPA c * x - tgamma k * (x - y)))"

text \<open>The four edge loops, each over its own index range.\<close>

definition w3_left_pass ::
  "config \<Rightarrow> int \<Rightarrow> int \<Rightarrow> int \<Rightarrow> buf \<Rightarrow> buf \<Rightarrow> flat_mask \<Rightarrow> buf \<Rightarrow> buf \<Rightarrow> buf \<Rightarrow> buf \<times> buf \<Rightarrow> buf \<times> buf" where
  "w3_left_pass c NX NY time phi_in psi_in xy_in tc tcc tgamma s =
     fold (w3_left_cell c NX NY time phi_in psi_in xy_in tc tcc tgamma) [1..NY - 2] s"

definition w3_right_pass ::
  "config \<Rightarrow> int \<Rightarrow> int \<Rightarrow> int \<Rightarrow> buf \<Rightarrow> buf \<Rightarrow> flat_mask \<Rightarrow> buf \<Rightarrow> buf \<Rightarrow> buf \<Rightarrow> buf \<times> buf \<Rightarrow> buf \<times> buf" where
  "w3_right_pass c NX NY time phi_in psi_in xy_in tc tcc tgamma s =
     fold (w3_right_cell c NX NY time phi_in psi_in xy_in tc tcc tgamma) [1..NY - 2] s"

definition w3_top_pass ::
  "config \<Rightarrow> int \<Rightarrow> int \<Rightarrow> int \<Rightarrow> buf \<Rightarrow> buf \<Rightarrow> flat_mask \<Rightarrow> buf \<Rightarrow> buf \<Rightarrow> buf \<Rightarrow> buf \<times> buf \<Rightarrow> buf \<times> buf" where
  "w3_top_pass c NX NY time phi_in psi_in xy_in tc tcc tgamma s =
     fold (w3_top_cell c NX NY time phi_in psi_in xy_in tc tcc tgamma) [0..NX - 1] s"

definition w3_bottom_pass ::
  "config \<Rightarrow> int \<Rightarrow> int \<Rightarrow> int \<Rightarrow> buf \<Rightarrow> buf \<Rightarrow> flat_mask \<Rightarrow> buf \<Rightarrow> buf \<Rightarrow> buf \<Rightarrow> buf \<times> buf \<Rightarrow> buf \<times> buf" where
  "w3_bottom_pass c NX NY time phi_in psi_in xy_in tc tcc tgamma s =
     fold (w3_bottom_cell c NX NY time phi_in psi_in xy_in tc tcc tgamma) [0..NX - 1] s"

text \<open>The bulk loop, \<open>i\<close> from 1 to \<open>NX-2\<close> and \<open>j\<close> from 1 to \<open>NY-2\<close>.\<close>

definition w3_bulk_pass ::
  "config \<Rightarrow> int \<Rightarrow> int \<Rightarrow> buf \<Rightarrow> buf \<Rightarrow> flat_mask \<Rightarrow> buf \<Rightarrow> buf \<Rightarrow> buf \<times> buf \<Rightarrow> buf \<times> buf" where
  "w3_bulk_pass c NX NY phi_in psi_in xy_in tcc tgamma s =
     fold (\<lambda>i. fold (\<lambda>j. w3_bulk_cell c NY phi_in psi_in xy_in tcc tgamma (i, j)) [1..NY - 2])
       [1..NX - 2] s"

text \<open>The \<^verbatim>\<open>if (OSCILLATE_LEFT)\<close> block after the edge loops, writing the two left corners.\<close>

fun w3_oscillate_corners :: "config \<Rightarrow> int \<Rightarrow> int \<Rightarrow> buf \<times> buf \<Rightarrow> buf \<times> buf" where
  "w3_oscillate_corners c NY time (phi_out, psi_out) =
     (if OSCILLATE_LEFT c
      then ((phi_out(0 := AMPLITUDE c * cos (of_int time * OMEGA c)))
              (NY - 1 := AMPLITUDE c * cos (of_int time * OMEGA c)), psi_out)
      else (phi_out, psi_out))"

text \<open>The \<^verbatim>\<open>if (FLOOR)\<close> double loop over all cells, and its body.\<close>

fun w3_floor_cell :: "config \<Rightarrow> int \<Rightarrow> flat_mask \<Rightarrow> int \<times> int \<Rightarrow> buf \<times> buf \<Rightarrow> buf \<times> buf" where
  "w3_floor_cell c NY xy_in (i, j) (phi_out, psi_out) =
     (if xy_in (i * NY + j) \<noteq> 0
      then (phi_out(i * NY + j := floor_clamp (VMAX c) (phi_out (i * NY + j))),
            psi_out(i * NY + j := floor_clamp (VMAX c) (psi_out (i * NY + j))))
      else (phi_out, psi_out))"

definition w3_floor_pass :: "config \<Rightarrow> int \<Rightarrow> int \<Rightarrow> flat_mask \<Rightarrow> buf \<times> buf \<Rightarrow> buf \<times> buf" where
  "w3_floor_pass c NX NY xy_in s =
     (if FLOOR c
      then fold (\<lambda>i. fold (\<lambda>j. w3_floor_cell c NY xy_in (i, j)) [0..NY - 1]) [0..NX - 1] s
      else s)"

text \<open>
  \<^verbatim>\<open>evolve_wave_half\<close>. \<open>time0\<close> is the value of the function's static counter \<^verbatim>\<open>time\<close> on
  entry; the function increments it first and the result carries the new value.
\<close>

definition w3_evolve_wave_half ::
  "config \<Rightarrow> int \<Rightarrow> int \<Rightarrow> int \<Rightarrow> buf \<Rightarrow> buf \<Rightarrow> buf \<Rightarrow> buf \<Rightarrow> flat_mask \<Rightarrow> buf \<Rightarrow> buf \<Rightarrow> buf
     \<Rightarrow> int \<times> buf \<times> buf" where
  "w3_evolve_wave_half c NX NY time0 phi_in psi_in phi_out psi_out xy_in tc tcc tgamma =
     (let time = time0 + 1;
          s1 = w3_bulk_pass c NX NY phi_in psi_in xy_in tcc tgamma (phi_out, psi_out);
          s2 = w3_left_pass c NX NY time phi_in psi_in xy_in tc tcc tgamma s1;
          s3 = w3_right_pass c NX NY time phi_in psi_in xy_in tc tcc tgamma s2;
          s4 = w3_top_pass c NX NY time phi_in psi_in xy_in tc tcc tgamma s3;
          s5 = w3_bottom_pass c NX NY time phi_in psi_in xy_in tc tcc tgamma s4;
          s6 = w3_oscillate_corners c NY time s5;
          s7 = w3_floor_pass c NX NY xy_in s6
      in (time, s7))"

text \<open>
  \<^verbatim>\<open>evolve_wave\<close>: two half steps, the second from the scratch pair back into \<open>phi\<close>, \<open>psi\<close>.
  The state is the counter and \<open>(phi, psi, phi_tmp, psi_tmp)\<close>.
\<close>

fun w3_evolve_wave ::
  "config \<Rightarrow> int \<Rightarrow> int \<Rightarrow> flat_mask \<Rightarrow> buf \<Rightarrow> buf \<Rightarrow> buf \<Rightarrow> int \<times> buf \<times> buf \<times> buf \<times> buf
     \<Rightarrow> int \<times> buf \<times> buf \<times> buf \<times> buf" where
  "w3_evolve_wave c NX NY xy_in tc tcc tgamma (time0, phi, psi, phi_tmp, psi_tmp) =
     (case w3_evolve_wave_half c NX NY time0 phi psi phi_tmp psi_tmp xy_in tc tcc tgamma of
        (time1, phi_tmp', psi_tmp') \<Rightarrow>
          (case w3_evolve_wave_half c NX NY time1 phi_tmp' psi_tmp' phi psi xy_in tc tcc tgamma of
             (time2, phi', psi') \<Rightarrow> (time2, phi', psi', phi_tmp', psi_tmp')))"

text \<open>
  The four edge loops run in a given order. \<^verbatim>\<open>evolve_wave_half\<close> has the order left, right,
  top, bottom.
\<close>

datatype edge = Left | Right | Top | Bottom

fun w3_edge_pass ::
  "config \<Rightarrow> int \<Rightarrow> int \<Rightarrow> int \<Rightarrow> buf \<Rightarrow> buf \<Rightarrow> flat_mask \<Rightarrow> buf \<Rightarrow> buf \<Rightarrow> buf \<Rightarrow> edge
     \<Rightarrow> buf \<times> buf \<Rightarrow> buf \<times> buf" where
  "w3_edge_pass c NX NY time phi_in psi_in xy_in tc tcc tgamma Left =
     w3_left_pass c NX NY time phi_in psi_in xy_in tc tcc tgamma"
| "w3_edge_pass c NX NY time phi_in psi_in xy_in tc tcc tgamma Right =
     w3_right_pass c NX NY time phi_in psi_in xy_in tc tcc tgamma"
| "w3_edge_pass c NX NY time phi_in psi_in xy_in tc tcc tgamma Top =
     w3_top_pass c NX NY time phi_in psi_in xy_in tc tcc tgamma"
| "w3_edge_pass c NX NY time phi_in psi_in xy_in tc tcc tgamma Bottom =
     w3_bottom_pass c NX NY time phi_in psi_in xy_in tc tcc tgamma"

definition w3_edge_passes ::
  "config \<Rightarrow> int \<Rightarrow> int \<Rightarrow> int \<Rightarrow> buf \<Rightarrow> buf \<Rightarrow> flat_mask \<Rightarrow> buf \<Rightarrow> buf \<Rightarrow> buf \<Rightarrow> edge list
     \<Rightarrow> buf \<times> buf \<Rightarrow> buf \<times> buf" where
  "w3_edge_passes c NX NY time phi_in psi_in xy_in tc tcc tgamma es s =
     fold (w3_edge_pass c NX NY time phi_in psi_in xy_in tc tcc tgamma) es s"

text \<open>Two states of the output buffers hold the same values at the flat index \<open>q\<close>.\<close>

definition agree_at :: "buf \<times> buf \<Rightarrow> buf \<times> buf \<Rightarrow> int \<Rightarrow> bool" where
  "agree_at s s' q = (fst s q = fst s' q \<and> snd s q = snd s' q)"

section \<open>Preconditions and test scenarios\<close>

text \<open>
  The policies and grid sizes for which \<^verbatim>\<open>evolve_wave_half\<close> of \<^verbatim>\<open>schrodinger.c\<close> assigns its
  neighbour indices and stays within its arrays.
\<close>

definition sch_defined :: "config \<Rightarrow> int \<Rightarrow> int \<Rightarrow> bool" where
  "sch_defined c NX NY =
     (B_COND c = BC_DIRICHLET \<or> B_COND c = BC_PERIODIC
      \<or> (B_COND c = BC_ABSORBING \<and> 2 \<le> NX \<and> 2 \<le> NY))"

text \<open>
  The scenario of the specification: periodic boundaries, squared Courant number \<open>1/4\<close>, no
  stiffness, no damping, no clamp; a unit impulse at cell \<open>(2, 2)\<close>; every cell inside. And the
  same constants with the Dirichlet policy.
\<close>

definition scenario_config :: config where
  "scenario_config =
     \<lparr>courant2 = 1 / 4, KAPPA = 0, GAMMA = 0, FLOOR = False, VMAX = 10,
      B_COND = BC_PERIODIC, intstep = 1 / 4, intstep1 = 1 / 4,
      TWOSPEEDS = False, OSCILLATE_LEFT = False, AMPLITUDE = 8 / 10, OMEGA = 5 / 1000,
      KAPPA_SIDES = 0, GAMMA_SIDES = 0, KAPPA_TOPBOT = 0, GAMMA_TOPBOT = 0\<rparr>"

definition dirichlet_config :: config where
  "dirichlet_config = scenario_config\<lparr>B_COND := BC_DIRICHLET\<rparr>"

definition impulse :: grid where
  "impulse = (\<lambda>k. if k = (2, 2) then 1 else 0)"

definition zero_grid :: grid where
  "zero_grid = (\<lambda>k. 0)"

definition all_inside :: mask where
  "all_inside = (\<lambda>k. 1)"

text \<open>A mask with the single cell \<open>(0, 0)\<close> outside.\<close>

definition corner_outside :: mask where
  "corner_outside = (\<lambda>k. if k = (0, 0) then 0 else 1)"

text \<open>Flat buffers and a flat mask for a \<open>3 \<times> 3\<close> grid: a ramp, zeros, and every cell inside.\<close>

definition ramp :: buf where
  "ramp = (\<lambda>k. of_int k)"

definition zero_buf :: buf where
  "zero_buf = (\<lambda>k. 0)"

definition quarter_buf :: buf where
  "quarter_buf = (\<lambda>k. 1 / 4)"

definition flat_all_inside :: flat_mask where
  "flat_all_inside = (\<lambda>k. 1)"

definition flat_all_outside :: flat_mask where
  "flat_all_outside = (\<lambda>k. 0)"

text \<open>An impulse at \<open>(0, 2)\<close>, two cells away from \<open>(2, 2)\<close> on the \<open>4 \<times> 4\<close> torus.\<close>

definition far_impulse :: grid where
  "far_impulse = (\<lambda>k. if k = (0, 2) then 1 else 0)"

text \<open>A field that is 3 at the corner cell \<open>(0, 0)\<close> and zero elsewhere.\<close>

definition corner_three :: grid where
  "corner_three = (\<lambda>k. if k = (0, 0) then 3 else 0)"

section \<open>The formulations of the specification\<close>

text \<open>
  The two-phase formulation of the wave step, in the specification's words: every inside
  cell of the grid is computed from the arrays as they were before the step
  (\<open>new_now = -y + 2x + squaredCourant\<cdot>laplacian - stiffness\<cdot>x - damping\<cdot>(x - y)\<close>,
  \<open>new_previous = x\<close>, with the periodic 4-neighbour Laplacian), and written to fresh arrays.
\<close>

definition two_phase_wave_step :: "config \<Rightarrow> int \<Rightarrow> int \<Rightarrow> mask \<Rightarrow> grid \<times> grid \<Rightarrow> grid \<times> grid" where
  "two_phase_wave_step c NX NY xy_in s =
     (case s of (phi, psi) \<Rightarrow>
       (\<lambda>(i, j).
          if 0 \<le> i \<and> i < NX \<and> 0 \<le> j \<and> j < NY \<and> xy_in (i, j) \<noteq> 0
          then - psi (i, j) + 2 * phi (i, j)
               + courant2 c * (phi (wrap_plus NX i, j) + phi (wrap_minus NX i, j)
                               + phi (i, wrap_plus NY j) + phi (i, wrap_minus NY j)
                               - 4 * phi (i, j))
               - KAPPA c * phi (i, j) - GAMMA c * (phi (i, j) - psi (i, j))
          else phi (i, j),
        \<lambda>(i, j).
          if 0 \<le> i \<and> i < NX \<and> 0 \<le> j \<and> j < NY \<and> xy_in (i, j) \<noteq> 0
          then phi (i, j) else psi (i, j)))"

text \<open>
  The discrete Laplacian in the specification's words,
  \<open>laplacian = sum_of_4_axis_neighbors(value) - 4 \<times> value\<close>, with a neighbour that falls outside
  the grid replaced by clamping its index to the nearest cell of the grid (Dirichlet-reflecting
  policy), or by wrapping to the opposite edge (periodic policy).
\<close>

definition laplacian_clamped :: "int \<Rightarrow> int \<Rightarrow> grid \<Rightarrow> int \<times> int \<Rightarrow> real" where
  "laplacian_clamped NX NY f k =
     (case k of (i, j) \<Rightarrow>
        f (clamp_plus NX i, j) + f (clamp_minus i, j) + f (i, clamp_plus NY j) + f (i, clamp_minus j)
          - 4 * f (i, j))"

definition laplacian_periodic :: "int \<Rightarrow> int \<Rightarrow> grid \<Rightarrow> int \<times> int \<Rightarrow> real" where
  "laplacian_periodic NX NY f k =
     (case k of (i, j) \<Rightarrow>
        f (wrap_plus NX i, j) + f (wrap_minus NX i, j) + f (i, wrap_plus NY j) + f (i, wrap_minus NY j)
          - 4 * f (i, j))"

definition policy_laplacian :: "bcond \<Rightarrow> int \<Rightarrow> int \<Rightarrow> grid \<Rightarrow> int \<times> int \<Rightarrow> real" where
  "policy_laplacian bc NX NY f k =
     (if bc = BC_PERIODIC then laplacian_periodic NX NY f k else laplacian_clamped NX NY f k)"

text \<open>
  The other formulation of the Dirichlet-reflecting policy in the specification's words: the
  same recurrence with a Laplacian over the neighbours that exist, three on an edge and two
  at a corner.
\<close>

definition existing_neighbours :: "int \<Rightarrow> int \<Rightarrow> int \<times> int \<Rightarrow> (int \<times> int) list" where
  "existing_neighbours NX NY k =
     (case k of (i, j) \<Rightarrow>
        filter (\<lambda>(a, b). 0 \<le> a \<and> a < NX \<and> 0 \<le> b \<and> b < NY)
          [(i + 1, j), (i - 1, j), (i, j + 1), (i, j - 1)])"

definition laplacian_existing :: "int \<Rightarrow> int \<Rightarrow> grid \<Rightarrow> int \<times> int \<Rightarrow> real" where
  "laplacian_existing NX NY f k =
     sum_list (map f (existing_neighbours NX NY k))
       - of_nat (length (existing_neighbours NX NY k)) * f k"

text \<open>A flat buffer of \<^verbatim>\<open>wave_3d.c\<close> read as a grid: cell \<open>(i, j)\<close> is entry \<open>i*NY+j\<close>.\<close>

definition unflat :: "int \<Rightarrow> buf \<Rightarrow> grid" where
  "unflat NY b = (\<lambda>(i, j). b (i * NY + j))"

text \<open>
  The interior recurrence of the wave variant at cell \<open>(i, j)\<close> of the flat buffers,
  \<open>new_now = -y + 2x + squaredCourant\<cdot>laplacian - stiffness\<cdot>x - damping\<cdot>(x - y)\<close>, with the
  clamped Laplacian and the per-cell coefficients \<open>tcc\<close> and \<open>tgamma\<close>.
\<close>

definition interior_rule_clamped ::
  "config \<Rightarrow> int \<Rightarrow> int \<Rightarrow> buf \<Rightarrow> buf \<Rightarrow> buf \<Rightarrow> buf \<Rightarrow> int \<times> int \<Rightarrow> real" where
  "interior_rule_clamped c NX NY phi_in psi_in tcc tgamma k =
     (case k of (i, j) \<Rightarrow>
        (let x = phi_in (i * NY + j);
             y = psi_in (i * NY + j)
         in - y + 2 * x + tcc (i * NY + j) * laplacian_clamped NX NY (unflat NY phi_in) (i, j)
              - KAPPA c * x - tgamma (i * NY + j) * (x - y)))"

text \<open>
  The cell and its four axis neighbours under a policy: wrapped for the periodic policy,
  clamped otherwise.
\<close>

definition stencil :: "bcond \<Rightarrow> int \<Rightarrow> int \<Rightarrow> int \<times> int \<Rightarrow> (int \<times> int) list" where
  "stencil bc NX NY k =
     (case k of (i, j) \<Rightarrow>
        if bc = BC_PERIODIC
        then [(i, j), (wrap_plus NX i, j), (wrap_minus NX i, j), (i, wrap_plus NY j), (i, wrap_minus NY j)]
        else [(i, j), (clamp_plus NX i, j), (clamp_minus i, j), (i, clamp_plus NY j), (i, clamp_minus j)])"

text \<open>
  The aggregate in the specification's words: the sum of the squared magnitude \<open>w\<close> over all
  the cells of the grid that the mask marks inside, divided by their number, the number
  taken as 1 when it is zero.
\<close>

definition aggregate_all_inside :: "int \<Rightarrow> int \<Rightarrow> (int \<times> int \<Rightarrow> real) \<Rightarrow> mask \<Rightarrow> real" where
  "aggregate_all_inside NX NY w xy_in =
     (let inside = filter (\<lambda>k. xy_in k \<noteq> 0) (List.product [0..NX - 1] [0..NY - 1]);
          n = int (length inside)
      in sum_list (map w inside) / of_int (if n = 0 then 1 else n))"

section \<open>The collaborators of the initialisers\<close>

text \<open>
  Modelled from the spec: \<^verbatim>\<open>ij_to_xy\<close> of \<^verbatim>\<open>sub_wave.c\<close>, which is not among the sources. The
  specification describes it as the affine map from lattice indices to the coordinates of
  the fixed rectangle; the rectangle is that of \<^verbatim>\<open>wave_billiard.c\<close>, \<open>XMIN = -2\<close>, \<open>XMAX = 2\<close>,
  \<open>YMIN = -1.125\<close>, \<open>YMAX = 1.125\<close>.
\<close>

definition ij_to_xy_affine :: "int \<Rightarrow> int \<Rightarrow> int \<Rightarrow> int \<Rightarrow> real \<times> real" where
  "ij_to_xy_affine NX NY i j =
     (- 2 + of_int i * (2 - (- 2)) / of_int NX,
      - (9 / 8) + of_int j * (9 / 8 - (- (9 / 8))) / of_int NY)"

text \<open>
  Modelled from the spec: a domain-membership predicate, which the specification treats as a
  black box supplied by the geometry module. This one is an annulus (\<^verbatim>\<open>D_ANNULUS\<close> in the list
  of domains of \<^verbatim>\<open>wave_billiard.c\<close>) with outer radius \<^verbatim>\<open>LAMBDA\<close> \<open>= 1\<close> and inner radius \<^verbatim>\<open>MU\<close>
  \<open>= 0.05\<close>: the centre of the rectangle is outside the domain.
\<close>

definition annulus :: "real \<Rightarrow> real \<Rightarrow> int" where
  "annulus x y = (if (1 / 20) * (1 / 20) < x * x + y * y \<and> x * x + y * y < 1 then 1 else 0)"

section \<open>What the normaliser visits\<close>

text \<open>
  The cells that \<^verbatim>\<open>compute_variance\<close> and \<^verbatim>\<open>renormalise_field\<close> of \<^verbatim>\<open>schrodinger.c\<close> visit and
  find inside, in the order of the loops, and the squared magnitude summed there.
\<close>

definition counted_cells :: "int \<Rightarrow> int \<Rightarrow> mask \<Rightarrow> (int \<times> int) list" where
  "counted_cells NX NY xy_in = filter (\<lambda>k. xy_in k \<noteq> 0) (List.product [1..NX - 1] [1..NY - 1])"

definition norm2 :: "grid \<Rightarrow> grid \<Rightarrow> int \<times> int \<Rightarrow> real" where
  "norm2 phi psi k = phi k * phi k + psi k * psi k"



section \<open>Loops\<close>

text \<open>
  Facts about the loops, independent of the loop body: a nested loop visits the index pairs
  in row order; a loop none of whose iterations fails is a fold; a location no iteration
  changes keeps its content; a location that some iteration sets to \<open>v\<close>, and the others set
  to \<open>v\<close> or leave alone, ends as \<open>v\<close>; a location one iteration transforms and the others
  leave alone ends transformed once. \<open>p\<close> selects one array of the loop state.
\<close>

lemma fold_nested:
  "fold (\<lambda>i. fold (\<lambda>j. f (i, j)) js) is s = fold f (List.product is js) s"
proof (induction "is" arbitrary: s)
  case Nil
  then show ?case by simp
next
  case (Cons i "is")
  have "fold f (map (Pair i) js) t = fold (\<lambda>j. f (i, j)) js t" for t
    by (simp add: fold_map comp_def)
  then show ?case using Cons by simp
qed

lemma for_each_total:
  assumes "\<And>k s. k \<in> set ks \<Longrightarrow> f k s \<noteq> None"
  shows "for_each ks f s = Some (fold (\<lambda>k s. the (f k s)) ks s)"
  using assms
proof (induction ks arbitrary: s)
  case Nil
  then show ?case by simp
next
  case (Cons k ks)
  from Cons.prems obtain s' where s': "f k s = Some s'" by fastforce
  have "for_each ks f s' = Some (fold (\<lambda>k s. the (f k s)) ks s')"
    by (rule Cons.IH) (simp add: Cons.prems)
  with s' show ?case by simp
qed

lemma for_each_nested:
  assumes "\<And>i j s. i \<in> set is \<Longrightarrow> j \<in> set js \<Longrightarrow> f (i, j) s \<noteq> None"
  shows "for_each is (\<lambda>i. for_each js (\<lambda>j. f (i, j))) s
           = Some (fold (\<lambda>k s. the (f k s)) (List.product is js) s)"
proof -
  have inner: "for_each js (\<lambda>j. f (i, j)) t = Some (fold (\<lambda>j s. the (f (i, j) s)) js t)"
    if "i \<in> set is" for i t
    using that assms by (intro for_each_total) blast
  have "for_each is (\<lambda>i. for_each js (\<lambda>j. f (i, j))) s
          = Some (fold (\<lambda>i s. the (for_each js (\<lambda>j. f (i, j)) s)) is s)"
    by (rule for_each_total) (simp add: inner)
  also have "fold (\<lambda>i s. the (for_each js (\<lambda>j. f (i, j)) s)) is s
          = fold (\<lambda>i. fold (\<lambda>j s. the (f (i, j) s)) js) is s"
    by (rule fold_cong) (simp_all add: inner fun_eq_iff)
  also have "\<dots> = fold (\<lambda>k s. the (f k s)) (List.product is js) s"
    by (rule fold_nested [of "\<lambda>k s. the (f k s)"])
  finally show ?thesis .
qed

lemma fold_frame:
  assumes "\<And>k s. k \<in> set ks \<Longrightarrow> p (body k s) q = p s q"
  shows "p (fold body ks s) q = p s q"
  using assms by (induction ks arbitrary: s) simp_all

lemma fold_written:
  assumes "k0 \<in> set ks"
    and "\<And>s. p (body k0 s) q = v"
    and "\<And>k s. k \<in> set ks \<Longrightarrow> p (body k s) q = v \<or> p (body k s) q = p s q"
  shows "p (fold body ks s) q = v"
  using assms(1,3)
proof (induction ks arbitrary: s rule: rev_induct)
  case Nil
  then show ?case by simp
next
  case (snoc k ks)
  show ?case
  proof (cases "k = k0")
    case True
    then show ?thesis by (simp add: assms(2))
  next
    case False
    with snoc.prems have k0: "k0 \<in> set ks" by simp
    have ih: "p (fold body ks s) q = v"
      by (rule snoc.IH [OF k0]) (simp add: snoc.prems)
    have "p (body k (fold body ks s)) q = v \<or> p (body k (fold body ks s)) q = p (fold body ks s) q"
      by (rule snoc.prems) simp
    with ih show ?thesis by auto
  qed
qed

lemma fold_pointwise:
  assumes "distinct ks" and "k0 \<in> set ks"
    and "\<And>s. p (body k0 s) q = F (p s q)"
    and "\<And>k s. k \<in> set ks \<Longrightarrow> k \<noteq> k0 \<Longrightarrow> p (body k s) q = p s q"
  shows "p (fold body ks s) q = F (p s q)"
  using assms(1,2,4)
proof (induction ks arbitrary: s)
  case Nil
  then show ?case by simp
next
  case (Cons k ks)
  show ?case
  proof (cases "k = k0")
    case True
    with Cons.prems have "k0 \<notin> set ks" by simp
    then have "p (fold body ks (body k0 s)) q = p (body k0 s) q"
      using Cons.prems(3) by (intro fold_frame) auto
    with True show ?thesis by (simp add: assms(3))
  next
    case False
    with Cons.prems have "k0 \<in> set ks" "distinct ks" by auto
    then have "p (fold body ks (body k s)) q = F (p (body k s) q)"
      using Cons.prems(3) by (intro Cons.IH) auto
    moreover have "p (body k s) q = p s q"
      using False by (intro Cons.prems(3)) auto
    ultimately show ?thesis by simp
  qed
qed

lemma fold_own_cell:
  assumes "distinct ks" and "k0 \<in> set ks"
    and "\<And>k s. k \<in> set ks \<Longrightarrow> k \<noteq> k0 \<Longrightarrow> p (body k s) q = p s q"
    and "\<And>s s'. p s q = p s' q \<Longrightarrow> p (body k0 s) q = p (body k0 s') q"
  shows "p (fold body ks s) q = p (body k0 s) q"
  using assms(1,2,3)
proof (induction ks arbitrary: s)
  case Nil
  then show ?case by simp
next
  case (Cons k ks)
  show ?case
  proof (cases "k = k0")
    case True
    with Cons.prems have "k0 \<notin> set ks" by simp
    then have "p (fold body ks (body k0 s)) q = p (body k0 s) q"
      using Cons.prems(3) by (intro fold_frame) auto
    with True show ?thesis by simp
  next
    case False
    with Cons.prems have "k0 \<in> set ks" "distinct ks" by auto
    then have "p (fold body ks (body k s)) q = p (body k0 (body k s)) q"
      using Cons.prems(3) by (intro Cons.IH) auto
    moreover have "p (body k s) q = p s q"
      using False by (intro Cons.prems(3)) auto
    then have "p (body k0 (body k s)) q = p (body k0 s) q"
      by (rule assms(4))
    ultimately show ?thesis by simp
  qed
qed

section \<open>Mask invariance\<close>

lemma wb_cell_frame:
  assumes "xy_in q = 0"
  shows "fst (wb_cell c NX NY xy_in k s) q = fst s q"
    and "snd (wb_cell c NX NY xy_in k s) q = snd s q"
  using assms by (cases k; cases s; auto simp: Let_def)+

lemma wb_evolve_wave_frame:
  assumes "xy_in q = 0"
  shows "fst (wb_evolve_wave c NX NY xy_in s) q = fst s q"
    and "snd (wb_evolve_wave c NX NY xy_in s) q = snd s q"
  unfolding wb_evolve_wave_def fold_nested
  by (rule fold_frame, simp add: wb_cell_frame assms)+

lemma wb_evolve_steps_frame:
  assumes "xy_in q = 0"
  shows "fst ((wb_evolve_wave c NX NY xy_in ^^ n) s) q = fst s q
         \<and> snd ((wb_evolve_wave c NX NY xy_in ^^ n) s) q = snd s q"
  by (induction n) (simp_all add: wb_evolve_wave_frame assms)

lemma sch_cell_defined:
  assumes "sch_defined c NX NY" "0 \<le> i" "i < NX" "0 \<le> j" "j < NY"
  shows "sch_cell c NX NY phi_in psi_in xy_in (i, j) s \<noteq> None"
  using assms by (cases s) (auto simp: sch_defined_def sch_neighbours_def Let_def)

lemma sch_cell_frame:
  assumes "sch_cell c NX NY phi_in psi_in xy_in k s = Some s'" and "xy_in q = 0"
  shows "fst s' q = fst s q \<and> snd s' q = snd s q"
  using assms
  by (cases k; cases s)
     (auto simp: sch_neighbours_def Let_def split: if_splits option.splits)

lemma sch_evolve_wave_half_fold:
  assumes "sch_defined c NX NY"
  shows "sch_evolve_wave_half c NX NY phi_in psi_in phi_out psi_out xy_in
         = Some (fold (\<lambda>k s. the (sch_cell c NX NY phi_in psi_in xy_in k s))
                   (List.product [0..NX - 1] [0..NY - 1]) (phi_out, psi_out))"
  unfolding sch_evolve_wave_half_def
proof (rule for_each_nested)
  fix i j :: int and s :: "grid \<times> grid"
  assume "i \<in> set [0..NX - 1]" "j \<in> set [0..NY - 1]"
  then show "sch_cell c NX NY phi_in psi_in xy_in (i, j) s \<noteq> None"
    by (intro sch_cell_defined [OF assms]) simp_all
qed

lemma sch_evolve_wave_half_frame:
  assumes "sch_defined c NX NY" and "xy_in q = 0"
  shows "\<exists>phi' psi'. sch_evolve_wave_half c NX NY phi_in psi_in phi_out psi_out xy_in = Some (phi', psi')
           \<and> phi' q = phi_out q \<and> psi' q = psi_out q"
proof -
  let ?body = "\<lambda>k s. the (sch_cell c NX NY phi_in psi_in xy_in k s)"
  let ?ks = "List.product [0..NX - 1] [0..NY - 1]"
  have step: "fst (?body k s) q = fst s q \<and> snd (?body k s) q = snd s q" if "k \<in> set ?ks" for k s
  proof -
    obtain i j where k: "k = (i, j)" by (cases k)
    with that have "sch_cell c NX NY phi_in psi_in xy_in k s \<noteq> None"
      using sch_cell_defined [OF assms(1)] by simp
    then obtain s' where "sch_cell c NX NY phi_in psi_in xy_in k s = Some s'" by blast
    with sch_cell_frame [OF this assms(2)] show ?thesis by simp
  qed
  have "fst (fold ?body ?ks (phi_out, psi_out)) q = fst (phi_out, psi_out) q"
    by (rule fold_frame) (simp add: step)
  moreover have "snd (fold ?body ?ks (phi_out, psi_out)) q = snd (phi_out, psi_out) q"
    by (rule fold_frame) (simp add: step)
  ultimately show ?thesis
    unfolding sch_evolve_wave_half_fold [OF assms(1)]
    by (cases "fold ?body ?ks (phi_out, psi_out)") simp
qed

lemma sch_evolve_wave_frame:
  assumes "sch_defined c NX NY" and "xy_in q = 0"
  shows "\<exists>s'. sch_evolve_wave c NX NY xy_in s = Some s'
           \<and> fst s' q = fst s q \<and> fst (snd s') q = fst (snd s) q
           \<and> fst (snd (snd s')) q = fst (snd (snd s)) q \<and> snd (snd (snd s')) q = snd (snd (snd s)) q"
proof -
  obtain phi psi phi_tmp psi_tmp where s: "s = (phi, psi, phi_tmp, psi_tmp)"
    by (cases s) auto
  obtain phi_tmp' psi_tmp' where h1:
    "sch_evolve_wave_half c NX NY phi psi phi_tmp psi_tmp xy_in = Some (phi_tmp', psi_tmp')"
    "phi_tmp' q = phi_tmp q" "psi_tmp' q = psi_tmp q"
    using sch_evolve_wave_half_frame [where xy_in = xy_in and q = q and phi_in = phi and psi_in = psi
        and phi_out = phi_tmp and psi_out = psi_tmp, OF assms] by blast
  obtain phi' psi' where h2:
    "sch_evolve_wave_half c NX NY phi_tmp' psi_tmp' phi psi xy_in = Some (phi', psi')"
    "phi' q = phi q" "psi' q = psi q"
    using sch_evolve_wave_half_frame [where xy_in = xy_in and q = q and phi_in = phi_tmp' and psi_in = psi_tmp'
        and phi_out = phi and psi_out = psi, OF assms] by blast
  show ?thesis using h1 h2 by (simp add: s)
qed

lemma sch_evolve_steps_frame:
  assumes "sch_defined c NX NY" and "xy_in q = 0"
  shows "\<exists>s'. sch_evolve_steps n c NX NY xy_in s = Some s'
           \<and> fst s' q = fst s q \<and> fst (snd s') q = fst (snd s) q
           \<and> fst (snd (snd s')) q = fst (snd (snd s)) q \<and> snd (snd (snd s')) q = snd (snd (snd s)) q"
proof (induction n arbitrary: s)
  case 0
  then show ?case by simp
next
  case (Suc n)
  obtain s1 where s1: "sch_evolve_wave c NX NY xy_in s = Some s1"
    "fst s1 q = fst s q" "fst (snd s1) q = fst (snd s) q"
    "fst (snd (snd s1)) q = fst (snd (snd s)) q" "snd (snd (snd s1)) q = snd (snd (snd s)) q"
    using sch_evolve_wave_frame [where xy_in = xy_in and q = q and s = s, OF assms] by blast
  from Suc [of s1] s1 show ?case by auto
qed

text \<open>
  Claim C3. A cell that the mask marks outside keeps its initial content in both field arrays
  through any number \<open>n\<close> of calls of \<^verbatim>\<open>evolve_wave\<close>, in \<^verbatim>\<open>wave_billiard.c\<close> and in
  \<^verbatim>\<open>schrodinger.c\<close> (where the \<open>n\<close> calls all return, under every policy the code handles).
\<close>

theorem mask_invariance:
  assumes "xy_in (i, j) = 0" and "sch_defined c' NX' NY'"
  shows "fst ((wb_evolve_wave c NX NY xy_in ^^ n) (phi, psi)) (i, j) = phi (i, j)
       \<and> snd ((wb_evolve_wave c NX NY xy_in ^^ n) (phi, psi)) (i, j) = psi (i, j)
       \<and> (\<exists>phi' psi' phi_tmp' psi_tmp'.
             sch_evolve_steps n c' NX' NY' xy_in (sphi, spsi, sphi_tmp, spsi_tmp)
               = Some (phi', psi', phi_tmp', psi_tmp')
             \<and> phi' (i, j) = sphi (i, j) \<and> psi' (i, j) = spsi (i, j))"
proof -
  obtain s' where s': "sch_evolve_steps n c' NX' NY' xy_in (sphi, spsi, sphi_tmp, spsi_tmp) = Some s'"
    "fst s' (i, j) = sphi (i, j)" "fst (snd s') (i, j) = spsi (i, j)"
    using sch_evolve_steps_frame [where xy_in = xy_in and q = "(i, j)"
        and s = "(sphi, spsi, sphi_tmp, spsi_tmp)" and n = n, OF assms(2) assms(1)]
    by auto
  obtain phi' psi' phi_tmp' psi_tmp' where "s' = (phi', psi', phi_tmp', psi_tmp')"
    by (cases s') auto
  with s' have "\<exists>phi' psi' phi_tmp' psi_tmp'.
             sch_evolve_steps n c' NX' NY' xy_in (sphi, spsi, sphi_tmp, spsi_tmp)
               = Some (phi', psi', phi_tmp', psi_tmp')
             \<and> phi' (i, j) = sphi (i, j) \<and> psi' (i, j) = spsi (i, j)"
    by auto
  moreover have "fst ((wb_evolve_wave c NX NY xy_in ^^ n) (phi, psi)) (i, j) = phi (i, j)
       \<and> snd ((wb_evolve_wave c NX NY xy_in ^^ n) (phi, psi)) (i, j) = psi (i, j)"
    using wb_evolve_steps_frame [where xy_in = xy_in and q = "(i, j)" and s = "(phi, psi)", OF assms(1)]
    by simp
  ultimately show ?thesis by blast
qed

theorem mask_invariance_witness:
  "corner_outside (0, 0) = 0 \<and> sch_defined scenario_config 4 4
   \<and> fst ((wb_evolve_wave scenario_config 4 4 corner_outside ^^ 3) (impulse, zero_grid)) (0, 0)
       = impulse (0, 0)
   \<and> snd ((wb_evolve_wave scenario_config 4 4 corner_outside ^^ 3) (impulse, zero_grid)) (0, 0)
       = zero_grid (0, 0)
   \<and> (\<exists>phi' psi' phi_tmp' psi_tmp'.
         sch_evolve_steps 3 scenario_config 4 4 corner_outside (impulse, impulse, zero_grid, zero_grid)
           = Some (phi', psi', phi_tmp', psi_tmp')
         \<and> phi' (0, 0) = impulse (0, 0) \<and> psi' (0, 0) = impulse (0, 0))"
proof -
  have h1: "corner_outside (0, 0) = 0"
    by (simp add: corner_outside_def)
  have h2: "sch_defined scenario_config 4 4"
    by (simp add: sch_defined_def scenario_config_def)
  show ?thesis
    using h1 h2
      mask_invariance [where xy_in = corner_outside and i = 0 and j = 0
        and c' = scenario_config and NX' = 4 and NY' = 4 and c = scenario_config
        and NX = 4 and NY = 4 and n = 3 and phi = impulse and psi = zero_grid
        and sphi = impulse and spsi = impulse and sphi_tmp = zero_grid
        and spsi_tmp = zero_grid, OF h1 h2]
    by simp
qed

section \<open>The in-place step of wave\_billiard.c\<close>

lemma upto_0_3: "[0..3] = [0, 1, 2, 3::int]"
  by (simp add: upto_rec1)

lemmas wb_eval = wb_evolve_wave_def upto_0_3 wrap_plus_def wrap_minus_def signed_modulo_int_def
  Let_def scenario_config_def impulse_def zero_grid_def all_inside_def far_impulse_def

text \<open>
  Claim C2 fails on \<^verbatim>\<open>evolve_wave\<close> of \<^verbatim>\<open>wave_billiard.c\<close>. In the scenario, after one call the
  cell \<open>(2, 2)\<close> holds \<open>9/8\<close> and not 1, and cells that are not neighbours of \<open>(2, 2)\<close> are
  nonzero (\<open>(1, 3)\<close> holds \<open>1/16\<close>, \<open>(3, 3)\<close> holds \<open>19/128\<close>), because the cells \<open>(1, 2)\<close> and
  \<open>(2, 1)\<close>, visited before \<open>(2, 2)\<close>, have already been overwritten when \<open>(2, 2)\<close> reads them.
  The previous-array does equal the field before the step. The two-phase formulation gives
  the values of the claim (1 at \<open>(2, 2)\<close>, 0 at \<open>(1, 3)\<close>).
\<close>

theorem wb_scenario_step:
  "fst (wb_evolve_wave scenario_config 4 4 all_inside (impulse, zero_grid)) (2, 2) = 9 / 8
   \<and> fst (wb_evolve_wave scenario_config 4 4 all_inside (impulse, zero_grid)) (1, 3) = 1 / 16
   \<and> fst (wb_evolve_wave scenario_config 4 4 all_inside (impulse, zero_grid)) (2, 3) = 19 / 64
   \<and> fst (wb_evolve_wave scenario_config 4 4 all_inside (impulse, zero_grid)) (3, 3) = 19 / 128
   \<and> snd (wb_evolve_wave scenario_config 4 4 all_inside (impulse, zero_grid)) = impulse
   \<and> fst (two_phase_wave_step scenario_config 4 4 all_inside (impulse, zero_grid)) (2, 2) = 1
   \<and> fst (two_phase_wave_step scenario_config 4 4 all_inside (impulse, zero_grid)) (1, 3) = 0"
proof -
  have "fst (wb_evolve_wave scenario_config 4 4 all_inside (impulse, zero_grid)) (2, 2) = 9 / 8"
    by (simp add: wb_eval)
  moreover have "fst (wb_evolve_wave scenario_config 4 4 all_inside (impulse, zero_grid)) (1, 3) = 1 / 16"
    by (simp add: wb_eval)
  moreover have "fst (wb_evolve_wave scenario_config 4 4 all_inside (impulse, zero_grid)) (2, 3) = 19 / 64"
    by (simp add: wb_eval)
  moreover have "fst (wb_evolve_wave scenario_config 4 4 all_inside (impulse, zero_grid)) (3, 3) = 19 / 128"
    by (simp add: wb_eval)
  moreover have "snd (wb_evolve_wave scenario_config 4 4 all_inside (impulse, zero_grid)) = impulse"
    by (rule ext) (simp add: wb_eval)
  moreover have "fst (two_phase_wave_step scenario_config 4 4 all_inside (impulse, zero_grid)) (2, 2) = 1"
    by (simp add: two_phase_wave_step_def wb_eval)
  moreover have "fst (two_phase_wave_step scenario_config 4 4 all_inside (impulse, zero_grid)) (1, 3) = 0"
    by (simp add: two_phase_wave_step_def wb_eval)
  ultimately show ?thesis by blast
qed

text \<open>
  Claim C1 fails on \<^verbatim>\<open>evolve_wave\<close> of \<^verbatim>\<open>wave_billiard.c\<close>, which updates \<open>phi\<close> in place. Two
  inputs that agree at \<open>(2, 2)\<close> and at its four neighbours give different outputs at
  \<open>(2, 2)\<close>: the output there is not a function of the five values before the step, and
  differs from that of the two-phase formulation.
\<close>

theorem wb_evolve_wave_not_two_phase:
  "far_impulse (2, 2) = zero_grid (2, 2)
   \<and> far_impulse (wrap_plus 4 2, 2) = zero_grid (wrap_plus 4 2, 2)
   \<and> far_impulse (wrap_minus 4 2, 2) = zero_grid (wrap_minus 4 2, 2)
   \<and> far_impulse (2, wrap_plus 4 2) = zero_grid (2, wrap_plus 4 2)
   \<and> far_impulse (2, wrap_minus 4 2) = zero_grid (2, wrap_minus 4 2)
   \<and> fst (wb_evolve_wave scenario_config 4 4 all_inside (zero_grid, zero_grid)) (2, 2) = 0
   \<and> fst (wb_evolve_wave scenario_config 4 4 all_inside (far_impulse, zero_grid)) (2, 2) = 19 / 256
   \<and> fst (two_phase_wave_step scenario_config 4 4 all_inside (far_impulse, zero_grid)) (2, 2) = 0"
proof -
  have "fst (wb_evolve_wave scenario_config 4 4 all_inside (zero_grid, zero_grid)) (2, 2) = 0"
    by (simp add: wb_eval)
  moreover have "fst (wb_evolve_wave scenario_config 4 4 all_inside (far_impulse, zero_grid)) (2, 2) = 19 / 256"
    by (simp add: wb_eval)
  moreover have "fst (two_phase_wave_step scenario_config 4 4 all_inside (far_impulse, zero_grid)) (2, 2) = 0"
    by (simp add: two_phase_wave_step_def wb_eval)
  moreover have "far_impulse (2, 2) = zero_grid (2, 2)
   \<and> far_impulse (wrap_plus 4 2, 2) = zero_grid (wrap_plus 4 2, 2)
   \<and> far_impulse (wrap_minus 4 2, 2) = zero_grid (wrap_minus 4 2, 2)
   \<and> far_impulse (2, wrap_plus 4 2) = zero_grid (2, wrap_plus 4 2)
   \<and> far_impulse (2, wrap_minus 4 2) = zero_grid (2, wrap_minus 4 2)"
    by (simp add: wb_eval)
  ultimately show ?thesis by blast
qed

section \<open>The aggregate\<close>

lemma upto_1_1: "[1..1] = [1::int]"
  by (simp add: upto_rec1)

lemma upto_0_1: "[0..1] = [0, 1::int]"
  by (simp add: upto_rec1)

text \<open>
  Claim C4 fails on both \<^verbatim>\<open>compute_variance\<close> functions: their loops start at 1, so inside
  cells of row 0 and column 0 are neither summed nor counted. On a \<open>2 \<times> 2\<close> grid, all inside,
  with the value 3 at \<open>(0, 0)\<close>, they return 0 where the aggregate over all inside cells is
  \<open>9/4\<close>.
\<close>

theorem compute_variance_skips_first_row_and_column:
  "wb_compute_variance 2 2 corner_three zero_grid all_inside = 0
   \<and> aggregate_all_inside 2 2 (\<lambda>k. corner_three k * corner_three k) all_inside = 9 / 4
   \<and> sch_compute_variance 2 2 corner_three zero_grid all_inside = 0
   \<and> aggregate_all_inside 2 2
        (\<lambda>k. corner_three k * corner_three k + zero_grid k * zero_grid k) all_inside = 9 / 4"
  by (simp add: wb_compute_variance_def sch_compute_variance_def aggregate_all_inside_def
      upto_1_1 upto_0_1 corner_three_def zero_grid_def all_inside_def)

section \<open>The initialisers of wave\_billiard.c\<close>

lemma wb_init_cell_at:
  "fst (wb_init_cell f m x y k s) q =
     (if k = q
      then (2 / 10) * exp (- ((fst (f (fst q) (snd q)) - x) * (fst (f (fst q) (snd q)) - x)
                              + (snd (f (fst q) (snd q)) - y) * (snd (f (fst q) (snd q)) - y)) / (1 / 1000))
             * cos (- sqrt ((fst (f (fst q) (snd q)) - x) * (fst (f (fst q) (snd q)) - x)
                              + (snd (f (fst q) (snd q)) - y) * (snd (f (fst q) (snd q)) - y)) / (1 / 100))
      else fst s q)"
  "snd (snd (wb_init_cell f m x y k s)) q =
     (if k = q then m (fst (f (fst q) (snd q))) (snd (f (fst q) (snd q))) else snd (snd s) q)"
  by (cases k; cases s; auto simp: Let_def)+

lemma wb_init_wave_at:
  assumes "0 \<le> i" "i < NX" "0 \<le> j" "j < NY"
  shows "fst (wb_init_wave f m NX NY x y s) (i, j) =
           (2 / 10) * exp (- ((fst (f i j) - x) * (fst (f i j) - x)
                              + (snd (f i j) - y) * (snd (f i j) - y)) / (1 / 1000))
             * cos (- sqrt ((fst (f i j) - x) * (fst (f i j) - x)
                              + (snd (f i j) - y) * (snd (f i j) - y)) / (1 / 100))"
    and "snd (snd (wb_init_wave f m NX NY x y s)) (i, j) = m (fst (f i j)) (snd (f i j))"
proof -
  have mem: "(i, j) \<in> set (List.product [0..NX - 1] [0..NY - 1])"
    using assms by simp
  show "fst (wb_init_wave f m NX NY x y s) (i, j) =
           (2 / 10) * exp (- ((fst (f i j) - x) * (fst (f i j) - x)
                              + (snd (f i j) - y) * (snd (f i j) - y)) / (1 / 1000))
             * cos (- sqrt ((fst (f i j) - x) * (fst (f i j) - x)
                              + (snd (f i j) - y) * (snd (f i j) - y)) / (1 / 100))"
    unfolding wb_init_wave_def fold_nested
    by (rule fold_written [where p = fst, OF mem]) (simp_all add: wb_init_cell_at)
  show "snd (snd (wb_init_wave f m NX NY x y s)) (i, j) = m (fst (f i j)) (snd (f i j))"
    unfolding wb_init_wave_def fold_nested
    by (rule fold_written [where p = "\<lambda>s. snd (snd s)", OF mem]) (simp_all add: wb_init_cell_at)
qed

lemma wb_add_drop_cell_at:
  "fst (wb_add_drop_cell f factor x y k s) q =
     (if k = q
      then fst s q + (2 / 10) * factor
             * exp (- ((fst (f (fst q) (snd q)) - x) * (fst (f (fst q) (snd q)) - x)
                              + (snd (f (fst q) (snd q)) - y) * (snd (f (fst q) (snd q)) - y)) / (1 / 1000))
             * cos (- sqrt ((fst (f (fst q) (snd q)) - x) * (fst (f (fst q) (snd q)) - x)
                              + (snd (f (fst q) (snd q)) - y) * (snd (f (fst q) (snd q)) - y)) / (1 / 100))
      else fst s q)"
  by (cases k; cases s; auto simp: Let_def)

lemma wb_add_drop_to_wave_at:
  assumes "0 \<le> i" "i < NX" "0 \<le> j" "j < NY"
  shows "fst (wb_add_drop_to_wave f NX NY factor x y s) (i, j) =
           fst s (i, j) + (2 / 10) * factor
             * exp (- ((fst (f i j) - x) * (fst (f i j) - x)
                              + (snd (f i j) - y) * (snd (f i j) - y)) / (1 / 1000))
             * cos (- sqrt ((fst (f i j) - x) * (fst (f i j) - x)
                              + (snd (f i j) - y) * (snd (f i j) - y)) / (1 / 100))"
proof -
  have mem: "(i, j) \<in> set (List.product [0..NX - 1] [0..NY - 1])"
    using assms by simp
  have dist: "distinct (List.product [0..NX - 1] [0..NY - 1])"
    by (simp add: distinct_product)
  show ?thesis
    unfolding wb_add_drop_to_wave_def fold_nested
    by (rule fold_pointwise [where p = fst and F = "\<lambda>v. v + _", OF dist mem])
       (simp_all add: wb_add_drop_cell_at)
qed

text \<open>
  Claim C5 fails on \<^verbatim>\<open>init_wave\<close> and \<^verbatim>\<open>add_drop_to_wave\<close> of \<^verbatim>\<open>wave_billiard.c\<close>, which write
  the pulse into every cell of the grid whatever the mask says. On the \<open>640 \<times> 360\<close> grid of
  the source with an annular domain, \<^verbatim>\<open>init_wave(0.0, 0.0, ...)\<close>, as \<^verbatim>\<open>animation\<close> calls it,
  marks the centre cell \<open>(320, 180)\<close> outside and stores the pulse maximum \<open>0.2\<close> there;
  \<^verbatim>\<open>add_drop_to_wave\<close> with factor 1 adds the same value to that cell of a zero field.
\<close>

theorem init_wave_writes_outside_cell:
  "snd (snd (wb_init_wave (ij_to_xy_affine 640 360) annulus 640 360 0 0 (phi0, psi0, mask0))) (320, 180) = 0
   \<and> fst (wb_init_wave (ij_to_xy_affine 640 360) annulus 640 360 0 0 (phi0, psi0, mask0)) (320, 180) = 1 / 5
   \<and> fst (wb_add_drop_to_wave (ij_to_xy_affine 640 360) 640 360 1 0 0 (zero_grid, zero_grid)) (320, 180) = 1 / 5"
  by (simp add: wb_init_wave_at wb_add_drop_to_wave_at ij_to_xy_affine_def annulus_def zero_grid_def)

section \<open>The normaliser of schrodinger.c\<close>

lemma sch_variance_fold:
  "fold (sch_variance_cell phi psi xy_in) ks (n, v)
     = (n + int (length (filter (\<lambda>k. xy_in k \<noteq> 0) ks)),
        v + sum_list (map (norm2 phi psi) (filter (\<lambda>k. xy_in k \<noteq> 0) ks)))"
proof (induction ks arbitrary: n v)
  case Nil
  then show ?case by simp
next
  case (Cons k ks)
  obtain i j where k: "k = (i, j)" by (cases k)
  show ?case by (simp add: k Cons norm2_def)
qed

lemma sch_compute_variance_sum:
  "sch_compute_variance NX NY phi psi xy_in
     = sum_list (map (norm2 phi psi) (counted_cells NX NY xy_in))
         / (if counted_cells NX NY xy_in = [] then 1 else of_nat (length (counted_cells NX NY xy_in)))"
  unfolding sch_compute_variance_def fold_nested sch_variance_fold counted_cells_def
  by simp

lemma norm2_nonneg: "0 \<le> norm2 phi psi k"
  by (simp add: norm2_def)

lemma sum_norm2_nonneg: "0 \<le> sum_list (map (norm2 phi psi) ks)"
  by (rule sum_list_nonneg) (auto simp: norm2_nonneg)

lemma sum_norm2_pos:
  assumes "k \<in> set ks" and "0 < norm2 phi psi k"
  shows "0 < sum_list (map (norm2 phi psi) ks)"
  using assms
proof (induction ks)
  case Nil
  then show ?case by simp
next
  case (Cons a ks)
  show ?case
  proof (cases "a = k")
    case True
    with Cons.prems sum_norm2_nonneg [of phi psi ks] show ?thesis by simp
  next
    case False
    with Cons have "0 < sum_list (map (norm2 phi psi) ks)" by simp
    with norm2_nonneg [of phi psi a] show ?thesis by simp
  qed
qed

lemma sch_compute_variance_nonneg: "0 \<le> sch_compute_variance NX NY phi psi xy_in"
  unfolding sch_compute_variance_sum by (simp add: sum_norm2_nonneg)

text \<open>
  In exact arithmetic a nonzero component of a counted inside cell makes the aggregate
  positive. The step from \<open>x \<noteq> 0\<close> to \<open>0 < x * x\<close> is not one of \<^verbatim>\<open>double\<close> arithmetic.
\<close>

lemma sch_compute_variance_pos:
  assumes "k \<in> set (counted_cells NX NY xy_in)" and "phi k \<noteq> 0 \<or> psi k \<noteq> 0"
  shows "0 < sch_compute_variance NX NY phi psi xy_in"
proof -
  have "0 < norm2 phi psi k"
    using assms(2) unfolding norm2_def
    by (metis add_pos_nonneg add_nonneg_pos zero_le_square not_real_square_gt_zero)
  then have "0 < sum_list (map (norm2 phi psi) (counted_cells NX NY xy_in))"
    by (rule sum_norm2_pos [OF assms(1)])
  moreover have "counted_cells NX NY xy_in \<noteq> []"
    using assms(1) by auto
  ultimately show ?thesis
    unfolding sch_compute_variance_sum by simp
qed
















section \<open>The half step of schrodinger.c\<close>

lemma sch_cell_other:
  assumes "sch_cell c NX NY phi_in psi_in xy_in k s = Some s'" and "k \<noteq> q"
  shows "fst s' q = fst s q \<and> snd s' q = snd s q"
  using assms
  by (cases k; cases s)
     (auto simp: sch_neighbours_def Let_def split: if_splits option.splits)

lemma sch_evolve_wave_half_at:
  assumes d: "sch_defined c NX NY"
    and r: "0 \<le> i" "i < NX" "0 \<le> j" "j < NY"
    and a: "\<And>s. fst (the (sch_cell c NX NY phi_in psi_in xy_in (i, j) s)) (i, j) = a"
    and b: "\<And>s. snd (the (sch_cell c NX NY phi_in psi_in xy_in (i, j) s)) (i, j) = b"
  shows "\<exists>phi1 psi1.
           sch_evolve_wave_half c NX NY phi_in psi_in phi_out psi_out xy_in = Some (phi1, psi1)
           \<and> phi1 (i, j) = a \<and> psi1 (i, j) = b"
proof -
  let ?body = "\<lambda>k s. the (sch_cell c NX NY phi_in psi_in xy_in k s)"
  let ?ks = "List.product [0..NX - 1] [0..NY - 1]"
  have mem: "(i, j) \<in> set ?ks"
    using r by simp
  have other: "fst (?body k s) (i, j) = fst s (i, j) \<and> snd (?body k s) (i, j) = snd s (i, j)"
    if "k \<in> set ?ks" "k \<noteq> (i, j)" for k s
  proof -
    obtain i' j' where k: "k = (i', j')" by (cases k)
    with that have "sch_cell c NX NY phi_in psi_in xy_in k s \<noteq> None"
      using sch_cell_defined [OF d] by simp
    then obtain s' where s': "sch_cell c NX NY phi_in psi_in xy_in k s = Some s'" by blast
    from sch_cell_other [OF s' that(2)] s' show ?thesis by simp
  qed
  have "fst (fold ?body ?ks (phi_out, psi_out)) (i, j) = a"
  proof (rule fold_written [where p = fst, OF mem])
    show "fst (?body (i, j) s) (i, j) = a" for s
      by (rule a)
    show "fst (?body k s) (i, j) = a \<or> fst (?body k s) (i, j) = fst s (i, j)"
      if "k \<in> set ?ks" for k s
      using a [of s] other [OF that, of s] by (cases "k = (i, j)") blast+
  qed
  moreover have "snd (fold ?body ?ks (phi_out, psi_out)) (i, j) = b"
  proof (rule fold_written [where p = snd, OF mem])
    show "snd (?body (i, j) s) (i, j) = b" for s
      by (rule b)
    show "snd (?body k s) (i, j) = b \<or> snd (?body k s) (i, j) = snd s (i, j)"
      if "k \<in> set ?ks" for k s
      using b [of s] other [OF that, of s] by (cases "k = (i, j)") blast+
  qed
  ultimately show ?thesis
    unfolding sch_evolve_wave_half_fold [OF d]
    by (cases "fold ?body ?ks (phi_out, psi_out)") simp
qed

lemma sch_defined_non_absorbing:
  "B_COND c = BC_DIRICHLET \<or> B_COND c = BC_PERIODIC \<Longrightarrow> sch_defined c NX NY"
  by (auto simp add: sch_defined_def)

lemma sch_half_step_cell:
  assumes bc: "B_COND c = BC_DIRICHLET \<or> B_COND c = BC_PERIODIC"
    and fl: "\<not> FLOOR c"
    and r: "0 \<le> i" "i < NX" "0 \<le> j" "j < NY"
    and m: "xy_in (i, j) \<noteq> 0"
  shows "\<exists>phi1 psi1.
           sch_evolve_wave_half c NX NY phi_in psi_in phi_out psi_out xy_in = Some (phi1, psi1)
           \<and> phi1 (i, j) = phi_in (i, j) - intstep c * policy_laplacian (B_COND c) NX NY psi_in (i, j)
           \<and> psi1 (i, j) = psi_in (i, j) + intstep c * policy_laplacian (B_COND c) NX NY phi_in (i, j)"
proof (rule sch_evolve_wave_half_at [OF sch_defined_non_absorbing [OF bc] r])
  fix s :: "grid \<times> grid"
  obtain po qo where s: "s = (po, qo)" by (cases s)
  show "fst (the (sch_cell c NX NY phi_in psi_in xy_in (i, j) s)) (i, j)
          = phi_in (i, j) - intstep c * policy_laplacian (B_COND c) NX NY psi_in (i, j)"
    using bc fl m
    by (auto simp: s sch_neighbours_def policy_laplacian_def laplacian_clamped_def
        laplacian_periodic_def Let_def)
  show "snd (the (sch_cell c NX NY phi_in psi_in xy_in (i, j) s)) (i, j)
          = psi_in (i, j) + intstep c * policy_laplacian (B_COND c) NX NY phi_in (i, j)"
    using bc fl m
    by (auto simp: s sch_neighbours_def policy_laplacian_def laplacian_clamped_def
        laplacian_periodic_def Let_def)
qed




section \<open>The edge loops of wave\_3d.c\<close>

text \<open>The flat index \<open>i*NY+j\<close> determines \<open>i\<close> and \<open>j\<close> when \<open>0 \<le> j < NY\<close>.\<close>

lemma flat_index_inj:
  fixes i i' j j' NY :: int
  assumes "0 \<le> j" "j < NY" "0 \<le> j'" "j' < NY" "i * NY + j = i' * NY + j'"
  shows "i = i' \<and> j = j'"
proof -
  have a: "(i * NY + j) div NY = i"
    using assms(1,2) by simp
  have b: "(i' * NY + j') div NY = i'"
    using assms(3,4) by simp
  from a b assms(5) have i: "i = i'" by metis
  with assms(5) show ?thesis by simp
qed

text \<open>
  Every loop body writes the two output buffers at one flat index only, and what it leaves
  there depends on the previous output buffers through the content of that index alone.
\<close>

lemma w3_left_cell_frame:
  assumes "q \<noteq> j"
  shows "fst (w3_left_cell c NX NY t phi_in psi_in xy_in tc tcc tgamma j s) q = fst s q"
    and "snd (w3_left_cell c NX NY t phi_in psi_in xy_in tc tcc tgamma j s) q = snd s q"
  using assms by (cases s; auto simp: Let_def split: bcond.splits)+

lemma w3_right_cell_frame:
  assumes "q \<noteq> (NX - 1) * NY + j"
  shows "fst (w3_right_cell c NX NY t phi_in psi_in xy_in tc tcc tgamma j s) q = fst s q"
    and "snd (w3_right_cell c NX NY t phi_in psi_in xy_in tc tcc tgamma j s) q = snd s q"
  using assms by (cases s; auto simp: Let_def split: bcond.splits)+

lemma w3_top_cell_frame:
  assumes "q \<noteq> i * NY + NY - 1"
  shows "fst (w3_top_cell c NX NY t phi_in psi_in xy_in tc tcc tgamma i s) q = fst s q"
    and "snd (w3_top_cell c NX NY t phi_in psi_in xy_in tc tcc tgamma i s) q = snd s q"
  using assms by (cases s; auto simp: Let_def split: bcond.splits)+

lemma w3_bottom_cell_frame:
  assumes "q \<noteq> i * NY"
  shows "fst (w3_bottom_cell c NX NY t phi_in psi_in xy_in tc tcc tgamma i s) q = fst s q"
    and "snd (w3_bottom_cell c NX NY t phi_in psi_in xy_in tc tcc tgamma i s) q = snd s q"
  using assms by (cases s; auto simp: Let_def split: bcond.splits)+

lemma w3_bulk_cell_frame:
  assumes "q \<noteq> fst k * NY + snd k"
  shows "fst (w3_bulk_cell c NY phi_in psi_in xy_in tcc tgamma k s) q = fst s q"
    and "snd (w3_bulk_cell c NY phi_in psi_in xy_in tcc tgamma k s) q = snd s q"
  using assms by (cases k; cases s; auto simp: Let_def)+

lemma w3_left_cell_own:
  shows "fst s q = fst s' q \<Longrightarrow>
         fst (w3_left_cell c NX NY t phi_in psi_in xy_in tc tcc tgamma j s) q
           = fst (w3_left_cell c NX NY t phi_in psi_in xy_in tc tcc tgamma j s') q"
    and "snd s q = snd s' q \<Longrightarrow>
         snd (w3_left_cell c NX NY t phi_in psi_in xy_in tc tcc tgamma j s) q
           = snd (w3_left_cell c NX NY t phi_in psi_in xy_in tc tcc tgamma j s') q"
  by (cases s; cases s'; auto simp: Let_def split: bcond.splits)+

lemma w3_right_cell_own:
  shows "fst s q = fst s' q \<Longrightarrow>
         fst (w3_right_cell c NX NY t phi_in psi_in xy_in tc tcc tgamma j s) q
           = fst (w3_right_cell c NX NY t phi_in psi_in xy_in tc tcc tgamma j s') q"
    and "snd s q = snd s' q \<Longrightarrow>
         snd (w3_right_cell c NX NY t phi_in psi_in xy_in tc tcc tgamma j s) q
           = snd (w3_right_cell c NX NY t phi_in psi_in xy_in tc tcc tgamma j s') q"
  by (cases s; cases s'; auto simp: Let_def split: bcond.splits)+

lemma w3_top_cell_own:
  shows "fst s q = fst s' q \<Longrightarrow>
         fst (w3_top_cell c NX NY t phi_in psi_in xy_in tc tcc tgamma i s) q
           = fst (w3_top_cell c NX NY t phi_in psi_in xy_in tc tcc tgamma i s') q"
    and "snd s q = snd s' q \<Longrightarrow>
         snd (w3_top_cell c NX NY t phi_in psi_in xy_in tc tcc tgamma i s) q
           = snd (w3_top_cell c NX NY t phi_in psi_in xy_in tc tcc tgamma i s') q"
  by (cases s; cases s'; auto simp: Let_def split: bcond.splits)+

lemma w3_bottom_cell_own:
  shows "fst s q = fst s' q \<Longrightarrow>
         fst (w3_bottom_cell c NX NY t phi_in psi_in xy_in tc tcc tgamma i s) q
           = fst (w3_bottom_cell c NX NY t phi_in psi_in xy_in tc tcc tgamma i s') q"
    and "snd s q = snd s' q \<Longrightarrow>
         snd (w3_bottom_cell c NX NY t phi_in psi_in xy_in tc tcc tgamma i s) q
           = snd (w3_bottom_cell c NX NY t phi_in psi_in xy_in tc tcc tgamma i s') q"
  by (cases s; cases s'; auto simp: Let_def split: bcond.splits)+

text \<open>
  An edge loop leaves alone every index outside its range, and its result at an index of its
  range is that of the one iteration that visits the index.
\<close>

lemma w3_left_pass_frame:
  assumes "q < 1 \<or> NY - 2 < q"
  shows "fst (w3_left_pass c NX NY t phi_in psi_in xy_in tc tcc tgamma s) q = fst s q"
    and "snd (w3_left_pass c NX NY t phi_in psi_in xy_in tc tcc tgamma s) q = snd s q"
proof -
  have ne: "q \<noteq> j" if "j \<in> set [1..NY - 2]" for j
    using that assms by auto
  show "fst (w3_left_pass c NX NY t phi_in psi_in xy_in tc tcc tgamma s) q = fst s q"
    unfolding w3_left_pass_def
    by (rule fold_frame [where p = fst]) (rule w3_left_cell_frame(1) [OF ne])
  show "snd (w3_left_pass c NX NY t phi_in psi_in xy_in tc tcc tgamma s) q = snd s q"
    unfolding w3_left_pass_def
    by (rule fold_frame [where p = snd]) (rule w3_left_cell_frame(2) [OF ne])
qed

lemma w3_right_pass_frame:
  assumes "\<And>j. 1 \<le> j \<Longrightarrow> j \<le> NY - 2 \<Longrightarrow> q \<noteq> (NX - 1) * NY + j"
  shows "fst (w3_right_pass c NX NY t phi_in psi_in xy_in tc tcc tgamma s) q = fst s q"
    and "snd (w3_right_pass c NX NY t phi_in psi_in xy_in tc tcc tgamma s) q = snd s q"
proof -
  have ne: "q \<noteq> (NX - 1) * NY + j" if "j \<in> set [1..NY - 2]" for j
    using that assms by auto
  show "fst (w3_right_pass c NX NY t phi_in psi_in xy_in tc tcc tgamma s) q = fst s q"
    unfolding w3_right_pass_def
    by (rule fold_frame [where p = fst]) (rule w3_right_cell_frame(1) [OF ne])
  show "snd (w3_right_pass c NX NY t phi_in psi_in xy_in tc tcc tgamma s) q = snd s q"
    unfolding w3_right_pass_def
    by (rule fold_frame [where p = snd]) (rule w3_right_cell_frame(2) [OF ne])
qed

lemma w3_top_pass_frame:
  assumes "\<And>i. 0 \<le> i \<Longrightarrow> i \<le> NX - 1 \<Longrightarrow> q \<noteq> i * NY + NY - 1"
  shows "fst (w3_top_pass c NX NY t phi_in psi_in xy_in tc tcc tgamma s) q = fst s q"
    and "snd (w3_top_pass c NX NY t phi_in psi_in xy_in tc tcc tgamma s) q = snd s q"
proof -
  have ne: "q \<noteq> i * NY + NY - 1" if "i \<in> set [0..NX - 1]" for i
    using that assms by auto
  show "fst (w3_top_pass c NX NY t phi_in psi_in xy_in tc tcc tgamma s) q = fst s q"
    unfolding w3_top_pass_def
    by (rule fold_frame [where p = fst]) (rule w3_top_cell_frame(1) [OF ne])
  show "snd (w3_top_pass c NX NY t phi_in psi_in xy_in tc tcc tgamma s) q = snd s q"
    unfolding w3_top_pass_def
    by (rule fold_frame [where p = snd]) (rule w3_top_cell_frame(2) [OF ne])
qed

lemma w3_bottom_pass_frame:
  assumes "\<And>i. 0 \<le> i \<Longrightarrow> i \<le> NX - 1 \<Longrightarrow> q \<noteq> i * NY"
  shows "fst (w3_bottom_pass c NX NY t phi_in psi_in xy_in tc tcc tgamma s) q = fst s q"
    and "snd (w3_bottom_pass c NX NY t phi_in psi_in xy_in tc tcc tgamma s) q = snd s q"
proof -
  have ne: "q \<noteq> i * NY" if "i \<in> set [0..NX - 1]" for i
    using that assms by auto
  show "fst (w3_bottom_pass c NX NY t phi_in psi_in xy_in tc tcc tgamma s) q = fst s q"
    unfolding w3_bottom_pass_def
    by (rule fold_frame [where p = fst]) (rule w3_bottom_cell_frame(1) [OF ne])
  show "snd (w3_bottom_pass c NX NY t phi_in psi_in xy_in tc tcc tgamma s) q = snd s q"
    unfolding w3_bottom_pass_def
    by (rule fold_frame [where p = snd]) (rule w3_bottom_cell_frame(2) [OF ne])
qed

lemma w3_left_pass_own:
  assumes "1 \<le> j" "j \<le> NY - 2"
  shows "fst (w3_left_pass c NX NY t phi_in psi_in xy_in tc tcc tgamma s) (j)
           = fst (w3_left_cell c NX NY t phi_in psi_in xy_in tc tcc tgamma j s) (j)"
    and "snd (w3_left_pass c NX NY t phi_in psi_in xy_in tc tcc tgamma s) (j)
           = snd (w3_left_cell c NX NY t phi_in psi_in xy_in tc tcc tgamma j s) (j)"
proof -
  have d: "distinct [1..NY - 2]"
    by simp
  have m: "j \<in> set [1..NY - 2]"
    using assms by simp
  have ne: "j \<noteq> k" if "k \<noteq> j" for k
    using that assms by simp
  show "fst (w3_left_pass c NX NY t phi_in psi_in xy_in tc tcc tgamma s) (j)
           = fst (w3_left_cell c NX NY t phi_in psi_in xy_in tc tcc tgamma j s) (j)"
    unfolding w3_left_pass_def
  proof (rule fold_own_cell [where p = fst, OF d m])
    show "fst (w3_left_cell c NX NY t phi_in psi_in xy_in tc tcc tgamma k u) (j) = fst u (j)" if "k \<in> set [1..NY - 2]" "k \<noteq> j" for k u
      by (rule w3_left_cell_frame(1) [OF ne [OF that(2)]])
    show "fst (w3_left_cell c NX NY t phi_in psi_in xy_in tc tcc tgamma j u) (j) = fst (w3_left_cell c NX NY t phi_in psi_in xy_in tc tcc tgamma j u') (j)"
      if "fst u (j) = fst u' (j)" for u u'
      using that by (rule w3_left_cell_own(1))
  qed
  show "snd (w3_left_pass c NX NY t phi_in psi_in xy_in tc tcc tgamma s) (j)
           = snd (w3_left_cell c NX NY t phi_in psi_in xy_in tc tcc tgamma j s) (j)"
    unfolding w3_left_pass_def
  proof (rule fold_own_cell [where p = snd, OF d m])
    show "snd (w3_left_cell c NX NY t phi_in psi_in xy_in tc tcc tgamma k u) (j) = snd u (j)" if "k \<in> set [1..NY - 2]" "k \<noteq> j" for k u
      by (rule w3_left_cell_frame(2) [OF ne [OF that(2)]])
    show "snd (w3_left_cell c NX NY t phi_in psi_in xy_in tc tcc tgamma j u) (j) = snd (w3_left_cell c NX NY t phi_in psi_in xy_in tc tcc tgamma j u') (j)"
      if "snd u (j) = snd u' (j)" for u u'
      using that by (rule w3_left_cell_own(2))
  qed
qed

lemma w3_right_pass_own:
  assumes "1 \<le> j" "j \<le> NY - 2"
  shows "fst (w3_right_pass c NX NY t phi_in psi_in xy_in tc tcc tgamma s) ((NX - 1) * NY + j)
           = fst (w3_right_cell c NX NY t phi_in psi_in xy_in tc tcc tgamma j s) ((NX - 1) * NY + j)"
    and "snd (w3_right_pass c NX NY t phi_in psi_in xy_in tc tcc tgamma s) ((NX - 1) * NY + j)
           = snd (w3_right_cell c NX NY t phi_in psi_in xy_in tc tcc tgamma j s) ((NX - 1) * NY + j)"
proof -
  have d: "distinct [1..NY - 2]"
    by simp
  have m: "j \<in> set [1..NY - 2]"
    using assms by simp
  have ne: "(NX - 1) * NY + j \<noteq> (NX - 1) * NY + k" if "k \<noteq> j" for k
    using that assms by simp
  show "fst (w3_right_pass c NX NY t phi_in psi_in xy_in tc tcc tgamma s) ((NX - 1) * NY + j)
           = fst (w3_right_cell c NX NY t phi_in psi_in xy_in tc tcc tgamma j s) ((NX - 1) * NY + j)"
    unfolding w3_right_pass_def
  proof (rule fold_own_cell [where p = fst, OF d m])
    show "fst (w3_right_cell c NX NY t phi_in psi_in xy_in tc tcc tgamma k u) ((NX - 1) * NY + j) = fst u ((NX - 1) * NY + j)" if "k \<in> set [1..NY - 2]" "k \<noteq> j" for k u
      by (rule w3_right_cell_frame(1) [OF ne [OF that(2)]])
    show "fst (w3_right_cell c NX NY t phi_in psi_in xy_in tc tcc tgamma j u) ((NX - 1) * NY + j) = fst (w3_right_cell c NX NY t phi_in psi_in xy_in tc tcc tgamma j u') ((NX - 1) * NY + j)"
      if "fst u ((NX - 1) * NY + j) = fst u' ((NX - 1) * NY + j)" for u u'
      using that by (rule w3_right_cell_own(1))
  qed
  show "snd (w3_right_pass c NX NY t phi_in psi_in xy_in tc tcc tgamma s) ((NX - 1) * NY + j)
           = snd (w3_right_cell c NX NY t phi_in psi_in xy_in tc tcc tgamma j s) ((NX - 1) * NY + j)"
    unfolding w3_right_pass_def
  proof (rule fold_own_cell [where p = snd, OF d m])
    show "snd (w3_right_cell c NX NY t phi_in psi_in xy_in tc tcc tgamma k u) ((NX - 1) * NY + j) = snd u ((NX - 1) * NY + j)" if "k \<in> set [1..NY - 2]" "k \<noteq> j" for k u
      by (rule w3_right_cell_frame(2) [OF ne [OF that(2)]])
    show "snd (w3_right_cell c NX NY t phi_in psi_in xy_in tc tcc tgamma j u) ((NX - 1) * NY + j) = snd (w3_right_cell c NX NY t phi_in psi_in xy_in tc tcc tgamma j u') ((NX - 1) * NY + j)"
      if "snd u ((NX - 1) * NY + j) = snd u' ((NX - 1) * NY + j)" for u u'
      using that by (rule w3_right_cell_own(2))
  qed
qed

lemma w3_top_pass_own:
  assumes "0 \<le> i" "i \<le> NX - 1" "NY \<noteq> 0"
  shows "fst (w3_top_pass c NX NY t phi_in psi_in xy_in tc tcc tgamma s) (i * NY + NY - 1)
           = fst (w3_top_cell c NX NY t phi_in psi_in xy_in tc tcc tgamma i s) (i * NY + NY - 1)"
    and "snd (w3_top_pass c NX NY t phi_in psi_in xy_in tc tcc tgamma s) (i * NY + NY - 1)
           = snd (w3_top_cell c NX NY t phi_in psi_in xy_in tc tcc tgamma i s) (i * NY + NY - 1)"
proof -
  have d: "distinct [0..NX - 1]"
    by simp
  have m: "i \<in> set [0..NX - 1]"
    using assms by simp
  have ne: "i * NY + NY - 1 \<noteq> k * NY + NY - 1" if "k \<noteq> i" for k
    using that assms by simp
  show "fst (w3_top_pass c NX NY t phi_in psi_in xy_in tc tcc tgamma s) (i * NY + NY - 1)
           = fst (w3_top_cell c NX NY t phi_in psi_in xy_in tc tcc tgamma i s) (i * NY + NY - 1)"
    unfolding w3_top_pass_def
  proof (rule fold_own_cell [where p = fst, OF d m])
    show "fst (w3_top_cell c NX NY t phi_in psi_in xy_in tc tcc tgamma k u) (i * NY + NY - 1) = fst u (i * NY + NY - 1)" if "k \<in> set [0..NX - 1]" "k \<noteq> i" for k u
      by (rule w3_top_cell_frame(1) [OF ne [OF that(2)]])
    show "fst (w3_top_cell c NX NY t phi_in psi_in xy_in tc tcc tgamma i u) (i * NY + NY - 1) = fst (w3_top_cell c NX NY t phi_in psi_in xy_in tc tcc tgamma i u') (i * NY + NY - 1)"
      if "fst u (i * NY + NY - 1) = fst u' (i * NY + NY - 1)" for u u'
      using that by (rule w3_top_cell_own(1))
  qed
  show "snd (w3_top_pass c NX NY t phi_in psi_in xy_in tc tcc tgamma s) (i * NY + NY - 1)
           = snd (w3_top_cell c NX NY t phi_in psi_in xy_in tc tcc tgamma i s) (i * NY + NY - 1)"
    unfolding w3_top_pass_def
  proof (rule fold_own_cell [where p = snd, OF d m])
    show "snd (w3_top_cell c NX NY t phi_in psi_in xy_in tc tcc tgamma k u) (i * NY + NY - 1) = snd u (i * NY + NY - 1)" if "k \<in> set [0..NX - 1]" "k \<noteq> i" for k u
      by (rule w3_top_cell_frame(2) [OF ne [OF that(2)]])
    show "snd (w3_top_cell c NX NY t phi_in psi_in xy_in tc tcc tgamma i u) (i * NY + NY - 1) = snd (w3_top_cell c NX NY t phi_in psi_in xy_in tc tcc tgamma i u') (i * NY + NY - 1)"
      if "snd u (i * NY + NY - 1) = snd u' (i * NY + NY - 1)" for u u'
      using that by (rule w3_top_cell_own(2))
  qed
qed

lemma w3_bottom_pass_own:
  assumes "0 \<le> i" "i \<le> NX - 1" "NY \<noteq> 0"
  shows "fst (w3_bottom_pass c NX NY t phi_in psi_in xy_in tc tcc tgamma s) (i * NY)
           = fst (w3_bottom_cell c NX NY t phi_in psi_in xy_in tc tcc tgamma i s) (i * NY)"
    and "snd (w3_bottom_pass c NX NY t phi_in psi_in xy_in tc tcc tgamma s) (i * NY)
           = snd (w3_bottom_cell c NX NY t phi_in psi_in xy_in tc tcc tgamma i s) (i * NY)"
proof -
  have d: "distinct [0..NX - 1]"
    by simp
  have m: "i \<in> set [0..NX - 1]"
    using assms by simp
  have ne: "i * NY \<noteq> k * NY" if "k \<noteq> i" for k
    using that assms by simp
  show "fst (w3_bottom_pass c NX NY t phi_in psi_in xy_in tc tcc tgamma s) (i * NY)
           = fst (w3_bottom_cell c NX NY t phi_in psi_in xy_in tc tcc tgamma i s) (i * NY)"
    unfolding w3_bottom_pass_def
  proof (rule fold_own_cell [where p = fst, OF d m])
    show "fst (w3_bottom_cell c NX NY t phi_in psi_in xy_in tc tcc tgamma k u) (i * NY) = fst u (i * NY)" if "k \<in> set [0..NX - 1]" "k \<noteq> i" for k u
      by (rule w3_bottom_cell_frame(1) [OF ne [OF that(2)]])
    show "fst (w3_bottom_cell c NX NY t phi_in psi_in xy_in tc tcc tgamma i u) (i * NY) = fst (w3_bottom_cell c NX NY t phi_in psi_in xy_in tc tcc tgamma i u') (i * NY)"
      if "fst u (i * NY) = fst u' (i * NY)" for u u'
      using that by (rule w3_bottom_cell_own(1))
  qed
  show "snd (w3_bottom_pass c NX NY t phi_in psi_in xy_in tc tcc tgamma s) (i * NY)
           = snd (w3_bottom_cell c NX NY t phi_in psi_in xy_in tc tcc tgamma i s) (i * NY)"
    unfolding w3_bottom_pass_def
  proof (rule fold_own_cell [where p = snd, OF d m])
    show "snd (w3_bottom_cell c NX NY t phi_in psi_in xy_in tc tcc tgamma k u) (i * NY) = snd u (i * NY)" if "k \<in> set [0..NX - 1]" "k \<noteq> i" for k u
      by (rule w3_bottom_cell_frame(2) [OF ne [OF that(2)]])
    show "snd (w3_bottom_cell c NX NY t phi_in psi_in xy_in tc tcc tgamma i u) (i * NY) = snd (w3_bottom_cell c NX NY t phi_in psi_in xy_in tc tcc tgamma i u') (i * NY)"
      if "snd u (i * NY) = snd u' (i * NY)" for u u'
      using that by (rule w3_bottom_cell_own(2))
  qed
qed

text \<open>
  Index arithmetic for the corners \<open>(i0, NY-1)\<close> and \<open>(i0, 0)\<close>, \<open>i0\<close> being 0 or \<open>NX-1\<close>: they are
  outside the range of the left and right loops, and a top-row index is never a bottom-row
  index.
\<close>

lemma flat_index_neq:
  fixes i i' j j' NY :: int
  assumes "0 \<le> j" "j < NY" "0 \<le> j'" "j' < NY" "j \<noteq> j'"
  shows "i * NY + j \<noteq> i' * NY + j'"
  using flat_index_inj [OF assms(1-4)] assms(5) by blast

lemma corner_not_left:
  fixes NX NY i0 :: int
  assumes "2 \<le> NX" "2 \<le> NY" "i0 = 0 \<or> i0 = NX - 1"
  shows "i0 * NY + NY - 1 < 1 \<or> NY - 2 < i0 * NY + NY - 1"
    and "i0 * NY < 1 \<or> NY - 2 < i0 * NY"
proof -
  have nn: "0 \<le> i0 * NY"
    using assms by (auto intro: mult_nonneg_nonneg)
  then show "i0 * NY + NY - 1 < 1 \<or> NY - 2 < i0 * NY + NY - 1"
    by simp
  have "1 * NY \<le> (NX - 1) * NY"
    using assms(1,2) by (intro mult_right_mono) simp_all
  then have le: "NY - 2 < (NX - 1) * NY"
    by linarith
  from assms(3) show "i0 * NY < 1 \<or> NY - 2 < i0 * NY"
  proof
    assume "i0 = 0"
    then show ?thesis by simp
  next
    assume "i0 = NX - 1"
    with le show ?thesis by blast
  qed
qed

lemma corner_not_right:
  fixes NX NY i0 j :: int
  assumes "2 \<le> NY" "1 \<le> j" "j \<le> NY - 2"
  shows "i0 * NY + NY - 1 \<noteq> (NX - 1) * NY + j"
    and "i0 * NY \<noteq> (NX - 1) * NY + j"
proof -
  show "i0 * NY + NY - 1 \<noteq> (NX - 1) * NY + j"
    using flat_index_neq [of "NY - 1" NY j i0 "NX - 1"] assms by simp
  show "i0 * NY \<noteq> (NX - 1) * NY + j"
    using flat_index_neq [of 0 NY j i0 "NX - 1"] assms by simp
qed

lemma top_not_bottom:
  fixes NY i i0 :: int
  assumes "2 \<le> NY"
  shows "i0 * NY + NY - 1 \<noteq> i * NY"
    and "i0 * NY \<noteq> i * NY + NY - 1"
proof -
  show "i0 * NY + NY - 1 \<noteq> i * NY"
    using flat_index_neq [of "NY - 1" NY 0 i0 i] assms by simp
  show "i0 * NY \<noteq> i * NY + NY - 1"
    using flat_index_neq [of 0 NY "NY - 1" i0 i] assms by simp
qed

text \<open>
  Whatever the order of the edge loops, a top corner ends as the top loop alone leaves it and
  a bottom corner as the bottom loop alone leaves it.
\<close>

lemma w3_edge_passes_corner:
  assumes ny: "2 \<le> NX" "2 \<le> NY" and i0: "i0 = 0 \<or> i0 = NX - 1"
    and es: "distinct es" "Top \<in> set es" "Bottom \<in> set es"
  shows "agree_at (w3_edge_passes c NX NY t phi_in psi_in xy_in tc tcc tgamma es s)
           (w3_top_pass c NX NY t phi_in psi_in xy_in tc tcc tgamma s) (i0 * NY + NY - 1)"
    and "agree_at (w3_edge_passes c NX NY t phi_in psi_in xy_in tc tcc tgamma es s)
           (w3_bottom_pass c NX NY t phi_in psi_in xy_in tc tcc tgamma s) (i0 * NY)"
proof -
  let ?pass = "w3_edge_pass c NX NY t phi_in psi_in xy_in tc tcc tgamma"
  let ?qt = "i0 * NY + NY - 1"
  let ?qb = "i0 * NY"
  have r: "0 \<le> i0" "i0 \<le> NX - 1" "NY \<noteq> 0"
    using ny i0 by auto
  have other_t: "fst (?pass e u) ?qt = fst u ?qt \<and> snd (?pass e u) ?qt = snd u ?qt"
    if "e \<noteq> Top" for e u
  proof (cases e)
    case Left
    then show ?thesis
      using w3_left_pass_frame [OF corner_not_left(1) [OF ny i0]] by simp
  next
    case Right
    then show ?thesis
      using w3_right_pass_frame [OF corner_not_right(1) [OF ny(2)]] by simp
  next
    case Top
    with that show ?thesis by simp
  next
    case Bottom
    then show ?thesis
      using w3_bottom_pass_frame [OF top_not_bottom(1) [OF ny(2)]] by simp
  qed
  have other_b: "fst (?pass e u) ?qb = fst u ?qb \<and> snd (?pass e u) ?qb = snd u ?qb"
    if "e \<noteq> Bottom" for e u
  proof (cases e)
    case Left
    then show ?thesis
      using w3_left_pass_frame [OF corner_not_left(2) [OF ny i0]] by simp
  next
    case Right
    then show ?thesis
      using w3_right_pass_frame [OF corner_not_right(2) [OF ny(2)]] by simp
  next
    case Top
    then show ?thesis
      using w3_top_pass_frame [OF top_not_bottom(2) [OF ny(2)]] by simp
  next
    case Bottom
    with that show ?thesis by simp
  qed
  have own_t1: "fst (?pass Top u) ?qt = fst (?pass Top u') ?qt" if "fst u ?qt = fst u' ?qt" for u u'
    using w3_top_cell_own(1) [OF that] by (simp add: w3_top_pass_own(1) [OF r])
  have own_t2: "snd (?pass Top u) ?qt = snd (?pass Top u') ?qt" if "snd u ?qt = snd u' ?qt" for u u'
    using w3_top_cell_own(2) [OF that] by (simp add: w3_top_pass_own(2) [OF r])
  have own_b1: "fst (?pass Bottom u) ?qb = fst (?pass Bottom u') ?qb" if "fst u ?qb = fst u' ?qb" for u u'
    using w3_bottom_cell_own(1) [OF that] by (simp add: w3_bottom_pass_own(1) [OF r])
  have own_b2: "snd (?pass Bottom u) ?qb = snd (?pass Bottom u') ?qb" if "snd u ?qb = snd u' ?qb" for u u'
    using w3_bottom_cell_own(2) [OF that] by (simp add: w3_bottom_pass_own(2) [OF r])
  have "fst (fold ?pass es s) ?qt = fst (?pass Top s) ?qt"
  proof (rule fold_own_cell [where p = fst, OF es(1,2)])
    show "fst (?pass e u) ?qt = fst u ?qt" if "e \<in> set es" "e \<noteq> Top" for e u
      using other_t [OF that(2)] by blast
    show "fst (?pass Top u) ?qt = fst (?pass Top u') ?qt" if "fst u ?qt = fst u' ?qt" for u u'
      using that by (rule own_t1)
  qed
  moreover have "snd (fold ?pass es s) ?qt = snd (?pass Top s) ?qt"
  proof (rule fold_own_cell [where p = snd, OF es(1,2)])
    show "snd (?pass e u) ?qt = snd u ?qt" if "e \<in> set es" "e \<noteq> Top" for e u
      using other_t [OF that(2)] by blast
    show "snd (?pass Top u) ?qt = snd (?pass Top u') ?qt" if "snd u ?qt = snd u' ?qt" for u u'
      using that by (rule own_t2)
  qed
  ultimately show "agree_at (w3_edge_passes c NX NY t phi_in psi_in xy_in tc tcc tgamma es s)
           (w3_top_pass c NX NY t phi_in psi_in xy_in tc tcc tgamma s) ?qt"
    by (simp add: agree_at_def w3_edge_passes_def)
  have "fst (fold ?pass es s) ?qb = fst (?pass Bottom s) ?qb"
  proof (rule fold_own_cell [where p = fst, OF es(1,3)])
    show "fst (?pass e u) ?qb = fst u ?qb" if "e \<in> set es" "e \<noteq> Bottom" for e u
      using other_b [OF that(2)] by blast
    show "fst (?pass Bottom u) ?qb = fst (?pass Bottom u') ?qb" if "fst u ?qb = fst u' ?qb" for u u'
      using that by (rule own_b1)
  qed
  moreover have "snd (fold ?pass es s) ?qb = snd (?pass Bottom s) ?qb"
  proof (rule fold_own_cell [where p = snd, OF es(1,3)])
    show "snd (?pass e u) ?qb = snd u ?qb" if "e \<in> set es" "e \<noteq> Bottom" for e u
      using other_b [OF that(2)] by blast
    show "snd (?pass Bottom u) ?qb = snd (?pass Bottom u') ?qb" if "snd u ?qb = snd u' ?qb" for u u'
      using that by (rule own_b2)
  qed
  ultimately show "agree_at (w3_edge_passes c NX NY t phi_in psi_in xy_in tc tcc tgamma es s)
           (w3_bottom_pass c NX NY t phi_in psi_in xy_in tc tcc tgamma s) ?qb"
    by (simp add: agree_at_def w3_edge_passes_def)
qed

text \<open>
  Where the guard of the top loop holds at column \<open>i\<close>, its iteration \<open>i\<close> stores the value of
  the selected policy into \<open>phi_out\<close> and the input \<open>phi_in\<close> into \<open>psi_out\<close> at cell
  \<open>(i, NY-1)\<close>; where it fails, the iteration stores nothing. Likewise the bottom loop at
  \<open>(i, 0)\<close>.
\<close>

lemma w3_top_cell_writes:
  assumes "TWOSPEEDS c \<or> xy_in (i * NY + NY - 1) \<noteq> 0"
  shows "fst (w3_top_cell c NX NY t phi_in psi_in xy_in tc tcc tgamma i u) (i * NY + NY - 1)
           = w3_top_value c NX NY phi_in psi_in tc tcc tgamma i"
    and "snd (w3_top_cell c NX NY t phi_in psi_in xy_in tc tcc tgamma i u) (i * NY + NY - 1)
           = phi_in (i * NY + NY - 1)"
  using assms
  by (cases u; cases "B_COND c"; simp add: w3_top_value_def Let_def)+

lemma w3_bottom_cell_writes:
  assumes "TWOSPEEDS c \<or> xy_in (i * NY) \<noteq> 0"
  shows "fst (w3_bottom_cell c NX NY t phi_in psi_in xy_in tc tcc tgamma i u) (i * NY)
           = w3_bottom_value c NX NY phi_in psi_in tc tcc tgamma i"
    and "snd (w3_bottom_cell c NX NY t phi_in psi_in xy_in tc tcc tgamma i u) (i * NY)
           = phi_in (i * NY)"
  using assms
  by (cases u; cases "B_COND c"; simp add: w3_bottom_value_def Let_def)+

lemma w3_top_cell_skips:
  assumes "\<not> (TWOSPEEDS c \<or> xy_in (i * NY + NY - 1) \<noteq> 0)"
  shows "w3_top_cell c NX NY t phi_in psi_in xy_in tc tcc tgamma i u = u"
  using assms by (cases u) simp

lemma w3_bottom_cell_skips:
  assumes "\<not> (TWOSPEEDS c \<or> xy_in (i * NY) \<noteq> 0)"
  shows "w3_bottom_cell c NX NY t phi_in psi_in xy_in tc tcc tgamma i u = u"
  using assms by (cases u) simp

text \<open>
  Claim C10, with the guard of the loops. On a grid of at least \<open>2 \<times> 2\<close> cells, let \<open>i0\<close> be 0
  or \<open>NX-1\<close>. The left and right loops (rows 1 to \<open>NY-2\<close>) leave the corners \<open>(i0, NY-1)\<close> and
  \<open>(i0, 0)\<close> alone, the bottom loop leaves \<open>(i0, NY-1)\<close> alone and the top loop leaves
  \<open>(i0, 0)\<close> alone, so in whatever order \<open>es\<close> the four edge loops run, the corner
  \<open>(i0, NY-1)\<close> ends with what the top loop alone gives and \<open>(i0, 0)\<close> with what the bottom
  loop alone gives. Where the guard \<open>TWOSPEEDS \<or> xy_in \<noteq> 0\<close> holds at \<open>(i0, NY-1)\<close>, the top
  loop stores there the value \<open>w3_top_value\<close> of the selected policy in \<open>phi_out\<close> and \<open>phi_in\<close>
  of the corner in \<open>psi_out\<close>, whatever the output buffers held before, and these are the final
  values; where the guard fails, the corner keeps its previous contents. Likewise the bottom
  loop at \<open>(i0, 0)\<close>. The source's order is left, right, top, bottom.
\<close>

theorem corner_written_by_one_pass:
  assumes "2 \<le> NX" "2 \<le> NY" "i0 = 0 \<or> i0 = NX - 1"
    and "distinct es" "set es = {Left, Right, Top, Bottom}"
  shows "agree_at (w3_left_pass c NX NY t phi_in psi_in xy_in tc tcc tgamma s) s (i0 * NY + NY - 1)
       \<and> agree_at (w3_left_pass c NX NY t phi_in psi_in xy_in tc tcc tgamma s) s (i0 * NY)
       \<and> agree_at (w3_right_pass c NX NY t phi_in psi_in xy_in tc tcc tgamma s) s (i0 * NY + NY - 1)
       \<and> agree_at (w3_right_pass c NX NY t phi_in psi_in xy_in tc tcc tgamma s) s (i0 * NY)
       \<and> agree_at (w3_bottom_pass c NX NY t phi_in psi_in xy_in tc tcc tgamma s) s (i0 * NY + NY - 1)
       \<and> agree_at (w3_top_pass c NX NY t phi_in psi_in xy_in tc tcc tgamma s) s (i0 * NY)
       \<and> agree_at (w3_edge_passes c NX NY t phi_in psi_in xy_in tc tcc tgamma es s) (w3_top_pass c NX NY t phi_in psi_in xy_in tc tcc tgamma s) (i0 * NY + NY - 1)
       \<and> agree_at (w3_edge_passes c NX NY t phi_in psi_in xy_in tc tcc tgamma es s) (w3_bottom_pass c NX NY t phi_in psi_in xy_in tc tcc tgamma s) (i0 * NY)
       \<and> agree_at (w3_top_pass c NX NY t phi_in psi_in xy_in tc tcc tgamma s) (w3_top_cell c NX NY t phi_in psi_in xy_in tc tcc tgamma i0 s) (i0 * NY + NY - 1)
       \<and> agree_at (w3_bottom_pass c NX NY t phi_in psi_in xy_in tc tcc tgamma s) (w3_bottom_cell c NX NY t phi_in psi_in xy_in tc tcc tgamma i0 s) (i0 * NY)
       \<and> w3_edge_passes c NX NY t phi_in psi_in xy_in tc tcc tgamma [Left, Right, Top, Bottom] s
           = w3_bottom_pass c NX NY t phi_in psi_in xy_in tc tcc tgamma (w3_top_pass c NX NY t phi_in psi_in xy_in tc tcc tgamma (w3_right_pass c NX NY t phi_in psi_in xy_in tc tcc tgamma (w3_left_pass c NX NY t phi_in psi_in xy_in tc tcc tgamma s)))
       \<and> (TWOSPEEDS c \<or> xy_in (i0 * NY + NY - 1) \<noteq> 0 \<longrightarrow>
            fst (w3_top_pass c NX NY t phi_in psi_in xy_in tc tcc tgamma s) (i0 * NY + NY - 1) = w3_top_value c NX NY phi_in psi_in tc tcc tgamma i0
          \<and> snd (w3_top_pass c NX NY t phi_in psi_in xy_in tc tcc tgamma s) (i0 * NY + NY - 1) = phi_in (i0 * NY + NY - 1)
          \<and> fst (w3_edge_passes c NX NY t phi_in psi_in xy_in tc tcc tgamma es s) (i0 * NY + NY - 1) = w3_top_value c NX NY phi_in psi_in tc tcc tgamma i0
          \<and> snd (w3_edge_passes c NX NY t phi_in psi_in xy_in tc tcc tgamma es s) (i0 * NY + NY - 1) = phi_in (i0 * NY + NY - 1))
       \<and> (TWOSPEEDS c \<or> xy_in (i0 * NY) \<noteq> 0 \<longrightarrow>
            fst (w3_bottom_pass c NX NY t phi_in psi_in xy_in tc tcc tgamma s) (i0 * NY) = w3_bottom_value c NX NY phi_in psi_in tc tcc tgamma i0
          \<and> snd (w3_bottom_pass c NX NY t phi_in psi_in xy_in tc tcc tgamma s) (i0 * NY) = phi_in (i0 * NY)
          \<and> fst (w3_edge_passes c NX NY t phi_in psi_in xy_in tc tcc tgamma es s) (i0 * NY) = w3_bottom_value c NX NY phi_in psi_in tc tcc tgamma i0
          \<and> snd (w3_edge_passes c NX NY t phi_in psi_in xy_in tc tcc tgamma es s) (i0 * NY) = phi_in (i0 * NY))
       \<and> (\<not> (TWOSPEEDS c \<or> xy_in (i0 * NY + NY - 1) \<noteq> 0) \<longrightarrow>
            agree_at (w3_top_pass c NX NY t phi_in psi_in xy_in tc tcc tgamma s) s (i0 * NY + NY - 1)
          \<and> agree_at (w3_edge_passes c NX NY t phi_in psi_in xy_in tc tcc tgamma es s) s (i0 * NY + NY - 1))
       \<and> (\<not> (TWOSPEEDS c \<or> xy_in (i0 * NY) \<noteq> 0) \<longrightarrow>
            agree_at (w3_bottom_pass c NX NY t phi_in psi_in xy_in tc tcc tgamma s) s (i0 * NY)
          \<and> agree_at (w3_edge_passes c NX NY t phi_in psi_in xy_in tc tcc tgamma es s) s (i0 * NY))"
proof -
  have r: "0 \<le> i0" "i0 \<le> NX - 1" "NY \<noteq> 0"
    using assms(1-3) by auto
  have m: "Top \<in> set es" "Bottom \<in> set es"
    using assms(5) by simp_all
  have "agree_at (w3_left_pass c NX NY t phi_in psi_in xy_in tc tcc tgamma s) s (i0 * NY + NY - 1)"
    unfolding agree_at_def
    using w3_left_pass_frame [OF corner_not_left(1) [OF assms(1-3)]] by simp
  moreover have "agree_at (w3_left_pass c NX NY t phi_in psi_in xy_in tc tcc tgamma s) s (i0 * NY)"
    unfolding agree_at_def
    using w3_left_pass_frame [OF corner_not_left(2) [OF assms(1-3)]] by simp
  moreover have "agree_at (w3_right_pass c NX NY t phi_in psi_in xy_in tc tcc tgamma s) s (i0 * NY + NY - 1)"
    unfolding agree_at_def
    using w3_right_pass_frame [OF corner_not_right(1) [OF assms(2)]] by simp
  moreover have "agree_at (w3_right_pass c NX NY t phi_in psi_in xy_in tc tcc tgamma s) s (i0 * NY)"
    unfolding agree_at_def
    using w3_right_pass_frame [OF corner_not_right(2) [OF assms(2)]] by simp
  moreover have "agree_at (w3_bottom_pass c NX NY t phi_in psi_in xy_in tc tcc tgamma s) s (i0 * NY + NY - 1)"
    unfolding agree_at_def
    using w3_bottom_pass_frame [OF top_not_bottom(1) [OF assms(2)]] by simp
  moreover have "agree_at (w3_top_pass c NX NY t phi_in psi_in xy_in tc tcc tgamma s) s (i0 * NY)"
    unfolding agree_at_def
    using w3_top_pass_frame [OF top_not_bottom(2) [OF assms(2)]] by simp
  moreover have "agree_at (w3_edge_passes c NX NY t phi_in psi_in xy_in tc tcc tgamma es s) (w3_top_pass c NX NY t phi_in psi_in xy_in tc tcc tgamma s) (i0 * NY + NY - 1)"
    by (rule w3_edge_passes_corner(1) [OF assms(1-4) m])
  moreover have "agree_at (w3_edge_passes c NX NY t phi_in psi_in xy_in tc tcc tgamma es s) (w3_bottom_pass c NX NY t phi_in psi_in xy_in tc tcc tgamma s) (i0 * NY)"
    by (rule w3_edge_passes_corner(2) [OF assms(1-4) m])
  moreover have "agree_at (w3_top_pass c NX NY t phi_in psi_in xy_in tc tcc tgamma s) (w3_top_cell c NX NY t phi_in psi_in xy_in tc tcc tgamma i0 s) (i0 * NY + NY - 1)"
    unfolding agree_at_def using w3_top_pass_own [OF r] by blast
  moreover have "agree_at (w3_bottom_pass c NX NY t phi_in psi_in xy_in tc tcc tgamma s) (w3_bottom_cell c NX NY t phi_in psi_in xy_in tc tcc tgamma i0 s) (i0 * NY)"
    unfolding agree_at_def using w3_bottom_pass_own [OF r] by blast
  moreover have "w3_edge_passes c NX NY t phi_in psi_in xy_in tc tcc tgamma [Left, Right, Top, Bottom] s
           = w3_bottom_pass c NX NY t phi_in psi_in xy_in tc tcc tgamma (w3_top_pass c NX NY t phi_in psi_in xy_in tc tcc tgamma (w3_right_pass c NX NY t phi_in psi_in xy_in tc tcc tgamma (w3_left_pass c NX NY t phi_in psi_in xy_in tc tcc tgamma s)))"
    by (simp add: w3_edge_passes_def)
  moreover have "fst (w3_top_pass c NX NY t phi_in psi_in xy_in tc tcc tgamma s) (i0 * NY + NY - 1) = w3_top_value c NX NY phi_in psi_in tc tcc tgamma i0
          \<and> snd (w3_top_pass c NX NY t phi_in psi_in xy_in tc tcc tgamma s) (i0 * NY + NY - 1) = phi_in (i0 * NY + NY - 1)
          \<and> fst (w3_edge_passes c NX NY t phi_in psi_in xy_in tc tcc tgamma es s) (i0 * NY + NY - 1) = w3_top_value c NX NY phi_in psi_in tc tcc tgamma i0
          \<and> snd (w3_edge_passes c NX NY t phi_in psi_in xy_in tc tcc tgamma es s) (i0 * NY + NY - 1) = phi_in (i0 * NY + NY - 1)"
    if g: "TWOSPEEDS c \<or> xy_in (i0 * NY + NY - 1) \<noteq> 0"
  proof -
    have tp: "fst (w3_top_pass c NX NY t phi_in psi_in xy_in tc tcc tgamma s) (i0 * NY + NY - 1) = w3_top_value c NX NY phi_in psi_in tc tcc tgamma i0"
        "snd (w3_top_pass c NX NY t phi_in psi_in xy_in tc tcc tgamma s) (i0 * NY + NY - 1) = phi_in (i0 * NY + NY - 1)"
      unfolding w3_top_pass_own [OF r]
      by (rule w3_top_cell_writes [where c = c and xy_in = xy_in and i = i0 and NY = NY, OF g])+
    then show ?thesis
      using w3_edge_passes_corner(1) [OF assms(1-4) m, of c t phi_in psi_in xy_in tc tcc tgamma s]
      unfolding agree_at_def by simp
  qed
  moreover have "fst (w3_bottom_pass c NX NY t phi_in psi_in xy_in tc tcc tgamma s) (i0 * NY) = w3_bottom_value c NX NY phi_in psi_in tc tcc tgamma i0
          \<and> snd (w3_bottom_pass c NX NY t phi_in psi_in xy_in tc tcc tgamma s) (i0 * NY) = phi_in (i0 * NY)
          \<and> fst (w3_edge_passes c NX NY t phi_in psi_in xy_in tc tcc tgamma es s) (i0 * NY) = w3_bottom_value c NX NY phi_in psi_in tc tcc tgamma i0
          \<and> snd (w3_edge_passes c NX NY t phi_in psi_in xy_in tc tcc tgamma es s) (i0 * NY) = phi_in (i0 * NY)"
    if g: "TWOSPEEDS c \<or> xy_in (i0 * NY) \<noteq> 0"
  proof -
    have bp: "fst (w3_bottom_pass c NX NY t phi_in psi_in xy_in tc tcc tgamma s) (i0 * NY) = w3_bottom_value c NX NY phi_in psi_in tc tcc tgamma i0"
        "snd (w3_bottom_pass c NX NY t phi_in psi_in xy_in tc tcc tgamma s) (i0 * NY) = phi_in (i0 * NY)"
      unfolding w3_bottom_pass_own [OF r]
      by (rule w3_bottom_cell_writes [where c = c and xy_in = xy_in and i = i0 and NY = NY, OF g])+
    then show ?thesis
      using w3_edge_passes_corner(2) [OF assms(1-4) m, of c t phi_in psi_in xy_in tc tcc tgamma s]
      unfolding agree_at_def by simp
  qed
  moreover have "agree_at (w3_top_pass c NX NY t phi_in psi_in xy_in tc tcc tgamma s) s (i0 * NY + NY - 1)
          \<and> agree_at (w3_edge_passes c NX NY t phi_in psi_in xy_in tc tcc tgamma es s) s (i0 * NY + NY - 1)"
    if g: "\<not> (TWOSPEEDS c \<or> xy_in (i0 * NY + NY - 1) \<noteq> 0)"
  proof -
    have "agree_at (w3_top_pass c NX NY t phi_in psi_in xy_in tc tcc tgamma s) s (i0 * NY + NY - 1)"
      unfolding agree_at_def w3_top_pass_own [OF r]
        w3_top_cell_skips [where c = c and xy_in = xy_in and i = i0 and NY = NY, OF g]
      by simp
    then show ?thesis
      using w3_edge_passes_corner(1) [OF assms(1-4) m, of c t phi_in psi_in xy_in tc tcc tgamma s]
      unfolding agree_at_def by simp
  qed
  moreover have "agree_at (w3_bottom_pass c NX NY t phi_in psi_in xy_in tc tcc tgamma s) s (i0 * NY)
          \<and> agree_at (w3_edge_passes c NX NY t phi_in psi_in xy_in tc tcc tgamma es s) s (i0 * NY)"
    if g: "\<not> (TWOSPEEDS c \<or> xy_in (i0 * NY) \<noteq> 0)"
  proof -
    have "agree_at (w3_bottom_pass c NX NY t phi_in psi_in xy_in tc tcc tgamma s) s (i0 * NY)"
      unfolding agree_at_def w3_bottom_pass_own [OF r]
        w3_bottom_cell_skips [where c = c and xy_in = xy_in and i = i0 and NY = NY, OF g]
      by simp
    then show ?thesis
      using w3_edge_passes_corner(2) [OF assms(1-4) m, of c t phi_in psi_in xy_in tc tcc tgamma s]
      unfolding agree_at_def by simp
  qed
  ultimately show ?thesis by blast
qed

theorem corner_written_by_one_pass_witness:
  "fst (w3_edge_passes scenario_config 3 3 1 ramp zero_buf flat_all_inside quarter_buf quarter_buf zero_buf [Bottom, Top, Right, Left] (zero_buf, zero_buf)) 2 = 11 / 2
   \<and> snd (w3_edge_passes scenario_config 3 3 1 ramp zero_buf flat_all_inside quarter_buf quarter_buf zero_buf [Bottom, Top, Right, Left] (zero_buf, zero_buf)) 2 = 2
   \<and> fst (w3_edge_passes scenario_config 3 3 1 ramp zero_buf flat_all_inside quarter_buf quarter_buf zero_buf [Bottom, Top, Right, Left] (zero_buf, zero_buf)) 0 = 3
   \<and> snd (w3_edge_passes scenario_config 3 3 1 ramp zero_buf flat_all_inside quarter_buf quarter_buf zero_buf [Bottom, Top, Right, Left] (zero_buf, zero_buf)) 0 = 0
   \<and> agree_at (w3_edge_passes scenario_config 3 3 1 ramp zero_buf flat_all_inside quarter_buf quarter_buf zero_buf [Bottom, Top, Right, Left] (zero_buf, zero_buf))
       (w3_top_pass scenario_config 3 3 1 ramp zero_buf flat_all_inside quarter_buf quarter_buf zero_buf (zero_buf, zero_buf)) 2
   \<and> agree_at (w3_left_pass scenario_config 3 3 1 ramp zero_buf flat_all_inside quarter_buf quarter_buf zero_buf (zero_buf, zero_buf)) (zero_buf, zero_buf) 2
   \<and> agree_at (w3_edge_passes scenario_config 3 3 1 ramp zero_buf flat_all_outside quarter_buf quarter_buf zero_buf [Bottom, Top, Right, Left] (quarter_buf, quarter_buf))
       (quarter_buf, quarter_buf) 2
   \<and> agree_at (w3_edge_passes scenario_config 3 3 1 ramp zero_buf flat_all_outside quarter_buf quarter_buf zero_buf [Bottom, Top, Right, Left] (quarter_buf, quarter_buf))
       (quarter_buf, quarter_buf) 0"
proof -
  have h: "(2::int) \<le> 3" "(0::int) = 0 \<or> (0::int) = 3 - 1"
    "distinct [Bottom, Top, Right, Left]"
    "set [Bottom, Top, Right, Left] = {Left, Right, Top, Bottom}"
    by auto
  have g: "TWOSPEEDS scenario_config \<or> flat_all_inside (0 * 3 + 3 - 1) \<noteq> 0"
    "TWOSPEEDS scenario_config \<or> flat_all_inside (0 * 3) \<noteq> 0"
    "\<not> (TWOSPEEDS scenario_config \<or> flat_all_outside (0 * 3 + 3 - 1) \<noteq> 0)"
    "\<not> (TWOSPEEDS scenario_config \<or> flat_all_outside (0 * 3) \<noteq> 0)"
    by (simp_all add: flat_all_inside_def flat_all_outside_def scenario_config_def)
  have v: "w3_top_value scenario_config 3 3 ramp zero_buf quarter_buf quarter_buf zero_buf 0 = 11 / 2"
    "w3_bottom_value scenario_config 3 3 ramp zero_buf quarter_buf quarter_buf zero_buf 0 = 3"
    "ramp 2 = 2" "ramp 0 = 0"
    by (simp_all add: w3_top_value_def w3_bottom_value_def scenario_config_def ramp_def zero_buf_def
        quarter_buf_def wrap_plus_def wrap_minus_def signed_modulo_int_def Let_def)
  have a: "(0::int) * 3 + 3 - 1 = 2" "(0::int) * 3 = 0"
    by simp_all
  show ?thesis
    using corner_written_by_one_pass [where NX = 3 and NY = 3 and ?i0.0 = 0
        and es = "[Bottom, Top, Right, Left]" and c = scenario_config and t = 1
        and phi_in = ramp and psi_in = zero_buf and xy_in = flat_all_inside
        and tc = quarter_buf and tcc = quarter_buf and tgamma = zero_buf
        and s = "(zero_buf, zero_buf)", OF h(1) h(1) h(2) h(3) h(4)]
      corner_written_by_one_pass [where NX = 3 and NY = 3 and ?i0.0 = 0
        and es = "[Bottom, Top, Right, Left]" and c = scenario_config and t = 1
        and phi_in = ramp and psi_in = zero_buf and xy_in = flat_all_outside
        and tc = quarter_buf and tcc = quarter_buf and tgamma = zero_buf
        and s = "(quarter_buf, quarter_buf)", OF h(1) h(1) h(2) h(3) h(4)]
      g
    unfolding a
    by (simp add: v)
qed

text \<open>
  A corner is not always written. On the \<open>2 \<times> 2\<close> grid with \<open>TWOSPEEDS\<close> off and the mask zero
  everywhere, the corner \<open>(0, 1)\<close> has flat index 1 and \<open>phi_in\<close> is 1 there, which a write of
  the top loop would store in \<open>psi_out\<close>; none of the four loops, nor the four in the source's
  order, changes \<open>psi_out\<close> there from its previous content 0.
\<close>

theorem corner_written_by_no_pass:
  "\<not> TWOSPEEDS scenario_config \<and> flat_all_outside 1 = 0 \<and> ramp 1 = 1
   \<and> snd (w3_left_pass scenario_config 2 2 1 ramp zero_buf flat_all_outside quarter_buf quarter_buf zero_buf (zero_buf, zero_buf)) 1 = 0
   \<and> snd (w3_right_pass scenario_config 2 2 1 ramp zero_buf flat_all_outside quarter_buf quarter_buf zero_buf (zero_buf, zero_buf)) 1 = 0
   \<and> snd (w3_top_pass scenario_config 2 2 1 ramp zero_buf flat_all_outside quarter_buf quarter_buf zero_buf (zero_buf, zero_buf)) 1 = 0
   \<and> snd (w3_bottom_pass scenario_config 2 2 1 ramp zero_buf flat_all_outside quarter_buf quarter_buf zero_buf (zero_buf, zero_buf)) 1 = 0
   \<and> snd (w3_edge_passes scenario_config 2 2 1 ramp zero_buf flat_all_outside quarter_buf quarter_buf zero_buf [Left, Right, Top, Bottom] (zero_buf, zero_buf)) 1 = 0"
  by (simp add: w3_edge_passes_def w3_left_pass_def w3_right_pass_def w3_top_pass_def
      w3_bottom_pass_def upto_0_1 scenario_config_def flat_all_outside_def ramp_def zero_buf_def)

section \<open>The Dirichlet-reflecting edges\<close>

text \<open>
  On a grid of at least \<open>2 \<times> 2\<close> cells the clamped 4-neighbour Laplacian is the Laplacian over
  the existing neighbours, and an edge cell has three of them, a corner two. Under the
  Dirichlet policy each edge loop of \<^verbatim>\<open>wave_3d.c\<close> writes the interior recurrence with the
  clamped Laplacian.
\<close>

lemma laplacian_clamped_existing:
  assumes "2 \<le> NX" "2 \<le> NY" "0 \<le> i" "i < NX" "0 \<le> j" "j < NY"
  shows "laplacian_clamped NX NY f (i, j) = laplacian_existing NX NY f (i, j)"
  using assms
  by (cases "i = NX - 1"; cases "i = 0"; cases "j = NY - 1"; cases "j = 0";
      simp add: laplacian_clamped_def laplacian_existing_def existing_neighbours_def
        clamp_plus_def clamp_minus_def Let_def)

lemma existing_neighbours_edge:
  assumes "2 \<le> NX" "2 \<le> NY" "0 \<le> i" "i < NX" "0 \<le> j" "j < NY"
    and "i = 0 \<or> i = NX - 1 \<or> j = 0 \<or> j = NY - 1"
  shows "length (existing_neighbours NX NY (i, j))
           = (if (i = 0 \<or> i = NX - 1) \<and> (j = 0 \<or> j = NY - 1) then 2 else 3)"
  using assms
  by (cases "i = NX - 1"; cases "i = 0"; cases "j = NY - 1"; cases "j = 0";
      simp add: existing_neighbours_def)

lemma w3_left_cell_dirichlet:
  assumes "B_COND c = BC_DIRICHLET" "\<not> OSCILLATE_LEFT c" "TWOSPEEDS c \<or> xy_in j \<noteq> 0"
    and "2 \<le> NX" "1 \<le> j" "j \<le> NY - 2"
  shows "fst (w3_left_cell c NX NY t phi_in psi_in xy_in tc tcc tgamma j u) j
           = interior_rule_clamped c NX NY phi_in psi_in tcc tgamma (0, j)"
    and "snd (w3_left_cell c NX NY t phi_in psi_in xy_in tc tcc tgamma j u) j = phi_in j"
  using assms
  by (cases u; auto simp: interior_rule_clamped_def laplacian_clamped_def unflat_def
      clamp_plus_def clamp_minus_def Let_def)+

lemma w3_right_cell_dirichlet:
  assumes "B_COND c = BC_DIRICHLET" "TWOSPEEDS c \<or> xy_in ((NX - 1) * NY + j) \<noteq> 0"
    and "2 \<le> NX" "1 \<le> j" "j \<le> NY - 2"
  shows "fst (w3_right_cell c NX NY t phi_in psi_in xy_in tc tcc tgamma j u) ((NX - 1) * NY + j)
           = interior_rule_clamped c NX NY phi_in psi_in tcc tgamma (NX - 1, j)"
    and "snd (w3_right_cell c NX NY t phi_in psi_in xy_in tc tcc tgamma j u) ((NX - 1) * NY + j)
           = phi_in ((NX - 1) * NY + j)"
  using assms
  by (cases u; auto simp: interior_rule_clamped_def laplacian_clamped_def unflat_def
      clamp_plus_def clamp_minus_def Let_def algebra_simps)+

lemma w3_top_cell_dirichlet:
  assumes "B_COND c = BC_DIRICHLET" "TWOSPEEDS c \<or> xy_in (i * NY + NY - 1) \<noteq> 0"
    and "2 \<le> NY"
  shows "fst (w3_top_cell c NX NY t phi_in psi_in xy_in tc tcc tgamma i u) (i * NY + NY - 1)
           = interior_rule_clamped c NX NY phi_in psi_in tcc tgamma (i, NY - 1)"
    and "snd (w3_top_cell c NX NY t phi_in psi_in xy_in tc tcc tgamma i u) (i * NY + NY - 1)
           = phi_in (i * NY + NY - 1)"
  using assms
  by (cases u; auto simp: interior_rule_clamped_def laplacian_clamped_def unflat_def
      clamp_plus_def clamp_minus_def Let_def algebra_simps)+

lemma w3_bottom_cell_dirichlet:
  assumes "B_COND c = BC_DIRICHLET" "TWOSPEEDS c \<or> xy_in (i * NY) \<noteq> 0"
    and "2 \<le> NY"
  shows "fst (w3_bottom_cell c NX NY t phi_in psi_in xy_in tc tcc tgamma i u) (i * NY)
           = interior_rule_clamped c NX NY phi_in psi_in tcc tgamma (i, 0)"
    and "snd (w3_bottom_cell c NX NY t phi_in psi_in xy_in tc tcc tgamma i u) (i * NY)
           = phi_in (i * NY)"
  using assms
  by (cases u; auto simp: interior_rule_clamped_def laplacian_clamped_def unflat_def
      clamp_plus_def clamp_minus_def Let_def algebra_simps)+

text \<open>
  The whole half step of \<^verbatim>\<open>wave_3d.c\<close> at an edge cell: the edge loop that visits the cell
  writes it, and the loops that run afterwards leave it alone.
\<close>

lemma w3_evolve_wave_half_edge:
  assumes d: "2 \<le> NX" "2 \<le> NY"
    and bc: "B_COND c = BC_DIRICHLET" and os: "\<not> OSCILLATE_LEFT c" and fl: "\<not> FLOOR c"
    and r: "0 \<le> i" "i < NX" "0 \<le> j" "j < NY"
    and e: "i = 0 \<or> i = NX - 1 \<or> j = 0 \<or> j = NY - 1"
    and g: "TWOSPEEDS c \<or> xy_in (i * NY + j) \<noteq> 0"
  shows "\<exists>po qo.
           w3_evolve_wave_half c NX NY t0 phi_in psi_in phi_out psi_out xy_in tc tcc tgamma
             = (t0 + 1, po, qo)
           \<and> po (i * NY + j) = interior_rule_clamped c NX NY phi_in psi_in tcc tgamma (i, j)
           \<and> qo (i * NY + j) = phi_in (i * NY + j)"
proof -
  define s1 where "s1 = w3_bulk_pass c NX NY phi_in psi_in xy_in tcc tgamma (phi_out, psi_out)"
  define s2 where "s2 = w3_left_pass c NX NY (t0 + 1) phi_in psi_in xy_in tc tcc tgamma s1"
  define s3 where "s3 = w3_right_pass c NX NY (t0 + 1) phi_in psi_in xy_in tc tcc tgamma s2"
  define s4 where "s4 = w3_top_pass c NX NY (t0 + 1) phi_in psi_in xy_in tc tcc tgamma s3"
  define s5 where "s5 = w3_bottom_pass c NX NY (t0 + 1) phi_in psi_in xy_in tc tcc tgamma s4"
  have osc: "w3_oscillate_corners c NY (t0 + 1) u = u" for u
    using os by (cases u) simp
  have whole: "w3_evolve_wave_half c NX NY t0 phi_in psi_in phi_out psi_out xy_in tc tcc tgamma
                 = (t0 + 1, s5)"
    unfolding w3_evolve_wave_half_def Let_def
    by (simp add: osc fl w3_floor_pass_def s1_def s2_def s3_def s4_def s5_def)
  have ny: "NY \<noteq> 0"
    using d by simp
  have ri: "i \<le> NX - 1"
    using r by simp
  consider (top) "j = NY - 1" | (bottom) "j = 0"
    | (left) "i = 0" "1 \<le> j" "j \<le> NY - 2" | (right) "i = NX - 1" "1 \<le> j" "j \<le> NY - 2"
    using e r by force
  then have "fst s5 (i * NY + j) = interior_rule_clamped c NX NY phi_in psi_in tcc tgamma (i, j)
             \<and> snd s5 (i * NY + j) = phi_in (i * NY + j)"
  proof cases
    case top
    have k: "i * NY + j = i * NY + NY - 1"
      using top by simp
    have g': "TWOSPEEDS c \<or> xy_in (i * NY + NY - 1) \<noteq> 0"
      using g k by simp
    have "fst s5 (i * NY + NY - 1) = fst s4 (i * NY + NY - 1)"
      "snd s5 (i * NY + NY - 1) = snd s4 (i * NY + NY - 1)"
      unfolding s5_def by (rule w3_bottom_pass_frame [OF top_not_bottom(1) [OF d(2)]])+
    moreover have "fst s4 (i * NY + NY - 1) = interior_rule_clamped c NX NY phi_in psi_in tcc tgamma (i, NY - 1)"
      "snd s4 (i * NY + NY - 1) = phi_in (i * NY + NY - 1)"
      unfolding s4_def
      by (simp_all add: w3_top_pass_own [OF r(1) ri ny] w3_top_cell_dirichlet [where xy_in = xy_in and i = i and NY = NY, OF bc g' d(2)])
    ultimately show ?thesis
      using top by (simp add: add_diff_eq)
  next
    case bottom
    have g': "TWOSPEEDS c \<or> xy_in (i * NY) \<noteq> 0"
      using g bottom by simp
    have "fst s5 (i * NY) = interior_rule_clamped c NX NY phi_in psi_in tcc tgamma (i, 0)"
      "snd s5 (i * NY) = phi_in (i * NY)"
      unfolding s5_def
      by (simp_all add: w3_bottom_pass_own [OF r(1) ri ny] w3_bottom_cell_dirichlet [where xy_in = xy_in and i = i and NY = NY, OF bc g' d(2)])
    then show ?thesis
      using bottom by simp
  next
    case left
    have g': "TWOSPEEDS c \<or> xy_in j \<noteq> 0"
      using g left by simp
    have nb: "j \<noteq> i' * NY" for i'
      using flat_index_neq [of j NY 0 0 i'] left by simp
    have nt: "j \<noteq> i' * NY + NY - 1" for i'
      using flat_index_neq [of j NY "NY - 1" 0 i'] left by simp
    have nr: "j \<noteq> (NX - 1) * NY + j'" if "1 \<le> j'" "j' \<le> NY - 2" for j'
      using flat_index_inj [of j NY j' 0 "NX - 1"] left that d by auto
    have "fst s5 j = fst s4 j" "snd s5 j = snd s4 j"
      unfolding s5_def by (rule w3_bottom_pass_frame [OF nb])+
    moreover have "fst s4 j = fst s3 j" "snd s4 j = snd s3 j"
      unfolding s4_def by (rule w3_top_pass_frame [OF nt])+
    moreover have "fst s3 j = fst s2 j" "snd s3 j = snd s2 j"
      unfolding s3_def by (rule w3_right_pass_frame [OF nr]; assumption)+
    moreover have "fst s2 j = interior_rule_clamped c NX NY phi_in psi_in tcc tgamma (0, j)"
      "snd s2 j = phi_in j"
      unfolding s2_def
      by (simp_all add: w3_left_pass_own [OF left(2,3)]
          w3_left_cell_dirichlet [where xy_in = xy_in and j = j, OF bc os g' d(1) left(2,3)])
    ultimately show ?thesis
      using left by simp
  next
    case right
    have g': "TWOSPEEDS c \<or> xy_in ((NX - 1) * NY + j) \<noteq> 0"
      using g right by simp
    have nb: "(NX - 1) * NY + j \<noteq> i' * NY" for i'
      using flat_index_neq [of j NY 0 "NX - 1" i'] right by simp
    have nt: "(NX - 1) * NY + j \<noteq> i' * NY + NY - 1" for i'
      using flat_index_neq [of j NY "NY - 1" "NX - 1" i'] right by simp
    have "fst s5 ((NX - 1) * NY + j) = fst s4 ((NX - 1) * NY + j)"
      "snd s5 ((NX - 1) * NY + j) = snd s4 ((NX - 1) * NY + j)"
      unfolding s5_def by (rule w3_bottom_pass_frame [OF nb])+
    moreover have "fst s4 ((NX - 1) * NY + j) = fst s3 ((NX - 1) * NY + j)"
      "snd s4 ((NX - 1) * NY + j) = snd s3 ((NX - 1) * NY + j)"
      unfolding s4_def by (rule w3_top_pass_frame [OF nt])+
    moreover have "fst s3 ((NX - 1) * NY + j)
                     = interior_rule_clamped c NX NY phi_in psi_in tcc tgamma (NX - 1, j)"
      "snd s3 ((NX - 1) * NY + j) = phi_in ((NX - 1) * NY + j)"
      unfolding s3_def
      by (simp_all add: w3_right_pass_own [OF right(2,3)]
          w3_right_cell_dirichlet [where xy_in = xy_in and j = j and NX = NX and NY = NY, OF bc g' d(1) right(2,3)])
    ultimately show ?thesis
      using right by simp
  qed
  then show ?thesis
    using whole by (cases s5) auto
qed

text \<open>
  Claim C8. Under the Dirichlet-reflecting policy (no debugging clamp, no oscillating left
  boundary), on a grid of at least \<open>2 \<times> 2\<close> cells, at every edge cell \<open>(i, j)\<close> that is updated:
  the half step of \<^verbatim>\<open>schrodinger.c\<close> applies its recurrence with the clamped 4-neighbour
  Laplacian; the edge loops of \<^verbatim>\<open>wave_3d.c\<close>, which are written with three neighbours
  and \<open>3x\<close>, give the interior recurrence with the clamped 4-neighbour Laplacian; and the
  clamped Laplacian of any field equals the Laplacian over the existing neighbours, of which
  there are three on an edge and two at a corner.
\<close>

theorem dirichlet_edge_formulations:
  assumes "2 \<le> NX" "2 \<le> NY" "0 \<le> i" "i < NX" "0 \<le> j" "j < NY"
    and "i = 0 \<or> i = NX - 1 \<or> j = 0 \<or> j = NY - 1"
    and "B_COND c = BC_DIRICHLET" "\<not> FLOOR c" "\<not> OSCILLATE_LEFT c"
    and "xy_in (i, j) \<noteq> 0" and "TWOSPEEDS c \<or> fxy_in (i * NY + j) \<noteq> 0"
  shows "laplacian_clamped NX NY f (i, j) = laplacian_existing NX NY f (i, j)
       \<and> length (existing_neighbours NX NY (i, j))
           = (if (i = 0 \<or> i = NX - 1) \<and> (j = 0 \<or> j = NY - 1) then 2 else 3)
       \<and> (\<exists>phi1 psi1.
             sch_evolve_wave_half c NX NY phi_in psi_in phi_out psi_out xy_in = Some (phi1, psi1)
             \<and> phi1 (i, j) = phi_in (i, j) - intstep c * laplacian_clamped NX NY psi_in (i, j)
             \<and> psi1 (i, j) = psi_in (i, j) + intstep c * laplacian_clamped NX NY phi_in (i, j))
       \<and> (\<exists>po qo.
             w3_evolve_wave_half c NX NY t0 bphi_in bpsi_in bphi_out bpsi_out fxy_in tc tcc tgamma
               = (t0 + 1, po, qo)
             \<and> po (i * NY + j) = interior_rule_clamped c NX NY bphi_in bpsi_in tcc tgamma (i, j)
             \<and> qo (i * NY + j) = bphi_in (i * NY + j))"
proof -
  have a: "laplacian_clamped NX NY f (i, j) = laplacian_existing NX NY f (i, j)"
    by (rule laplacian_clamped_existing [OF assms(1-6)])
  have b: "length (existing_neighbours NX NY (i, j))
           = (if (i = 0 \<or> i = NX - 1) \<and> (j = 0 \<or> j = NY - 1) then 2 else 3)"
    by (rule existing_neighbours_edge [OF assms(1-7)])
  have bc: "B_COND c = BC_DIRICHLET \<or> B_COND c = BC_PERIODIC"
    using assms(8) by simp
  have "\<exists>phi1 psi1.
          sch_evolve_wave_half c NX NY phi_in psi_in phi_out psi_out xy_in = Some (phi1, psi1)
          \<and> phi1 (i, j) = phi_in (i, j) - intstep c * policy_laplacian (B_COND c) NX NY psi_in (i, j)
          \<and> psi1 (i, j) = psi_in (i, j) + intstep c * policy_laplacian (B_COND c) NX NY phi_in (i, j)"
    using assms(11) by (intro sch_half_step_cell [OF bc assms(9) assms(3-6)])
  then have s: "\<exists>phi1 psi1.
          sch_evolve_wave_half c NX NY phi_in psi_in phi_out psi_out xy_in = Some (phi1, psi1)
          \<and> phi1 (i, j) = phi_in (i, j) - intstep c * laplacian_clamped NX NY psi_in (i, j)
          \<and> psi1 (i, j) = psi_in (i, j) + intstep c * laplacian_clamped NX NY phi_in (i, j)"
    by (simp add: policy_laplacian_def assms(8))
  have w: "\<exists>po qo.
             w3_evolve_wave_half c NX NY t0 bphi_in bpsi_in bphi_out bpsi_out fxy_in tc tcc tgamma
               = (t0 + 1, po, qo)
             \<and> po (i * NY + j) = interior_rule_clamped c NX NY bphi_in bpsi_in tcc tgamma (i, j)
             \<and> qo (i * NY + j) = bphi_in (i * NY + j)"
    using assms(12)
    by (intro w3_evolve_wave_half_edge [OF assms(1,2) assms(8) assms(10) assms(9) assms(3-7)])
  from a b s w show ?thesis by blast
qed

theorem dirichlet_edge_formulations_witness:
  "laplacian_clamped 3 3 impulse (0, 1) = laplacian_existing 3 3 impulse (0, 1)
   \<and> length (existing_neighbours 3 3 (0, 1))
       = (if ((0::int) = 0 \<or> (0::int) = 3 - 1) \<and> ((1::int) = 0 \<or> (1::int) = 3 - 1) then 2 else 3)
   \<and> (\<exists>phi1 psi1.
         sch_evolve_wave_half dirichlet_config 3 3 impulse zero_grid zero_grid zero_grid all_inside
           = Some (phi1, psi1)
         \<and> phi1 (0, 1) = impulse (0, 1)
               - intstep dirichlet_config * laplacian_clamped 3 3 zero_grid (0, 1)
         \<and> psi1 (0, 1) = zero_grid (0, 1)
               + intstep dirichlet_config * laplacian_clamped 3 3 impulse (0, 1))
   \<and> (\<exists>po qo.
         w3_evolve_wave_half dirichlet_config 3 3 0 ramp zero_buf zero_buf zero_buf
             flat_all_inside quarter_buf quarter_buf zero_buf
           = (0 + 1, po, qo)
         \<and> po (0 * 3 + 1)
             = interior_rule_clamped dirichlet_config 3 3 ramp zero_buf quarter_buf zero_buf (0, 1)
         \<and> qo (0 * 3 + 1) = ramp (0 * 3 + 1))"
proof -
  have g: "B_COND dirichlet_config = BC_DIRICHLET" "\<not> FLOOR dirichlet_config"
    "\<not> OSCILLATE_LEFT dirichlet_config" "all_inside (0, 1) \<noteq> 0"
    "TWOSPEEDS dirichlet_config \<or> flat_all_inside (0 * 3 + 1) \<noteq> 0"
    by (simp_all add: dirichlet_config_def scenario_config_def all_inside_def flat_all_inside_def)
  have h: "(2::int) \<le> 3" "(0::int) \<le> 0" "(0::int) < 3" "(0::int) \<le> 1" "(1::int) < 3"
    "(0::int) = 0 \<or> (0::int) = 3 - 1 \<or> (1::int) = 0 \<or> (1::int) = 3 - 1"
    by simp_all
  show ?thesis
    by (rule dirichlet_edge_formulations [where NX = 3 and NY = 3 and i = 0 and j = 1
        and c = dirichlet_config and xy_in = all_inside and fxy_in = flat_all_inside
        and f = impulse and phi_in = impulse and psi_in = zero_grid and phi_out = zero_grid
        and psi_out = zero_grid and ?t0.0 = 0 and bphi_in = ramp and bpsi_in = zero_buf
        and bphi_out = zero_buf and bpsi_out = zero_buf and tc = quarter_buf
        and tcc = quarter_buf and tgamma = zero_buf,
        OF h(1) h(1) h(2) h(3) h(4) h(5) h(6) g])
qed

section \<open>The two-buffer half steps\<close>

text \<open>
  What claim C1 says does hold for the half steps that read \<open>phi_in\<close>, \<open>psi_in\<close> and write
  \<open>phi_out\<close>, \<open>psi_out\<close>. In \<^verbatim>\<open>schrodinger.c\<close>, under every policy the code handles, two runs
  whose inputs agree on a cell and its four axis neighbours give the same output at the cell,
  whatever the inputs are elsewhere and whatever the output arrays held before. In
  \<^verbatim>\<open>wave_3d.c\<close> every bulk cell that is updated ends with the interior recurrence of the
  input buffers (the Dirichlet edge cells are treated above).
\<close>

lemma sch_cell_local_dirichlet:
  assumes dir: "B_COND c = BC_DIRICHLET"
    and m: "xy_in (i, j) \<noteq> 0"
    and a: "\<And>k. k \<in> set (stencil (B_COND c) NX NY (i, j)) \<Longrightarrow> phi_in k = phi_in' k \<and> psi_in k = psi_in' k"
  shows "fst (the (sch_cell c NX NY phi_in psi_in xy_in (i, j) (po, qo))) (i, j)
           = fst (the (sch_cell c NX NY phi_in' psi_in' xy_in (i, j) (po', qo'))) (i, j)
      \<and> snd (the (sch_cell c NX NY phi_in psi_in xy_in (i, j) (po, qo))) (i, j)
           = snd (the (sch_cell c NX NY phi_in' psi_in' xy_in (i, j) (po', qo'))) (i, j)"
proof -
    have e: "phi_in (i, j) = phi_in' (i, j)" "psi_in (i, j) = psi_in' (i, j)"
      "phi_in (clamp_plus NX i, j) = phi_in' (clamp_plus NX i, j)"
      "psi_in (clamp_plus NX i, j) = psi_in' (clamp_plus NX i, j)"
      "phi_in (clamp_minus i, j) = phi_in' (clamp_minus i, j)"
      "psi_in (clamp_minus i, j) = psi_in' (clamp_minus i, j)"
      "phi_in (i, clamp_plus NY j) = phi_in' (i, clamp_plus NY j)"
      "psi_in (i, clamp_plus NY j) = psi_in' (i, clamp_plus NY j)"
      "phi_in (i, clamp_minus j) = phi_in' (i, clamp_minus j)"
      "psi_in (i, clamp_minus j) = psi_in' (i, clamp_minus j)"
      using a dir by (simp_all add: stencil_def)
    show ?thesis
      using dir m by (simp add: sch_neighbours_def Let_def e)
qed


lemma sch_cell_local_periodic:
  assumes per: "B_COND c = BC_PERIODIC"
    and m: "xy_in (i, j) \<noteq> 0"
    and a: "\<And>k. k \<in> set (stencil (B_COND c) NX NY (i, j)) \<Longrightarrow> phi_in k = phi_in' k \<and> psi_in k = psi_in' k"
  shows "fst (the (sch_cell c NX NY phi_in psi_in xy_in (i, j) (po, qo))) (i, j)
           = fst (the (sch_cell c NX NY phi_in' psi_in' xy_in (i, j) (po', qo'))) (i, j)
      \<and> snd (the (sch_cell c NX NY phi_in psi_in xy_in (i, j) (po, qo))) (i, j)
           = snd (the (sch_cell c NX NY phi_in' psi_in' xy_in (i, j) (po', qo'))) (i, j)"
proof -
  have e: "phi_in (i, j) = phi_in' (i, j)" "psi_in (i, j) = psi_in' (i, j)"
    "phi_in (wrap_plus NX i, j) = phi_in' (wrap_plus NX i, j)"
    "psi_in (wrap_plus NX i, j) = psi_in' (wrap_plus NX i, j)"
    "phi_in (wrap_minus NX i, j) = phi_in' (wrap_minus NX i, j)"
    "psi_in (wrap_minus NX i, j) = psi_in' (wrap_minus NX i, j)"
    "phi_in (i, wrap_plus NY j) = phi_in' (i, wrap_plus NY j)"
    "psi_in (i, wrap_plus NY j) = psi_in' (i, wrap_plus NY j)"
    "phi_in (i, wrap_minus NY j) = phi_in' (i, wrap_minus NY j)"
    "psi_in (i, wrap_minus NY j) = psi_in' (i, wrap_minus NY j)"
    using a per by (simp_all add: stencil_def)
  show ?thesis
    using per m by (simp add: sch_neighbours_def Let_def e)
qed

lemma sch_cell_local_absorbing:
  assumes ab: "B_COND c = BC_ABSORBING" and d: "2 \<le> NX" "2 \<le> NY"
    and r: "0 \<le> i" "i < NX" "0 \<le> j" "j < NY"
    and m: "xy_in (i, j) \<noteq> 0"
    and a: "\<And>k. k \<in> set (stencil (B_COND c) NX NY (i, j)) \<Longrightarrow> phi_in k = phi_in' k \<and> psi_in k = psi_in' k"
  shows "fst (the (sch_cell c NX NY phi_in psi_in xy_in (i, j) (po, qo))) (i, j)
           = fst (the (sch_cell c NX NY phi_in' psi_in' xy_in (i, j) (po', qo'))) (i, j)
      \<and> snd (the (sch_cell c NX NY phi_in psi_in xy_in (i, j) (po, qo))) (i, j)
           = snd (the (sch_cell c NX NY phi_in' psi_in' xy_in (i, j) (po', qo'))) (i, j)"
proof -
  have e: "phi_in (i, j) = phi_in' (i, j)" "psi_in (i, j) = psi_in' (i, j)"
    "phi_in (clamp_plus NX i, j) = phi_in' (clamp_plus NX i, j)"
    "psi_in (clamp_plus NX i, j) = psi_in' (clamp_plus NX i, j)"
    "phi_in (clamp_minus i, j) = phi_in' (clamp_minus i, j)"
    "psi_in (clamp_minus i, j) = psi_in' (clamp_minus i, j)"
    "phi_in (i, clamp_plus NY j) = phi_in' (i, clamp_plus NY j)"
    "psi_in (i, clamp_plus NY j) = psi_in' (i, clamp_plus NY j)"
    "phi_in (i, clamp_minus j) = phi_in' (i, clamp_minus j)"
    "psi_in (i, clamp_minus j) = psi_in' (i, clamp_minus j)"
    using a ab by (simp_all add: stencil_def)
  consider (bulk) "0 < i" "i < NX - 1" "0 < j" "j < NY - 1"
    | (right) "i = NX - 1"
    | (upper) "i \<noteq> NX - 1" "j = NY - 1" "\<not> (0 < i \<and> i < NX - 1 \<and> 0 < j \<and> j < NY - 1)"
    | (left) "i \<noteq> NX - 1" "j \<noteq> NY - 1" "i = 0"
    | (lower) "i \<noteq> NX - 1" "j \<noteq> NY - 1" "i \<noteq> 0" "j = 0"
    using r by force
  then show ?thesis
  proof cases
    case bulk
    then show ?thesis
      using ab m by (simp add: sch_neighbours_def Let_def e)
  next
    case right
    have "clamp_minus i = i - 1"
      using right d by (simp add: clamp_minus_def)
    with e(5,6) have b: "phi_in (i - 1, j) = phi_in' (i - 1, j)" "psi_in (i - 1, j) = psi_in' (i - 1, j)"
      by simp_all
    have nb: "\<not> (0 < i \<and> i < NX - 1 \<and> 0 < j \<and> j < NY - 1)" "\<not> i - 1 < 0"
      using right d by simp_all
    show ?thesis
      using ab m right nb e(1,2) b by (simp add: sch_neighbours_def Let_def)
  next
    case upper
    have "clamp_minus j = j - 1"
      using upper d by (simp add: clamp_minus_def)
    with e(9,10) have b: "phi_in (i, j - 1) = phi_in' (i, j - 1)" "psi_in (i, j - 1) = psi_in' (i, j - 1)"
      by simp_all
    have nb: "\<not> j - 1 < 0"
      using upper d by simp
    show ?thesis
      using ab m upper nb e(1,2) b by (simp add: sch_neighbours_def Let_def)
  next
    case left
    have "clamp_plus NX i = 1"
      using left d by (simp add: clamp_plus_def)
    with e(3,4) have b: "phi_in (1, j) = phi_in' (1, j)" "psi_in (1, j) = psi_in' (1, j)"
      by simp_all
    show ?thesis
      using ab m left e(1,2) b by (simp add: sch_neighbours_def Let_def)
  next
    case lower
    have "clamp_plus NY j = 1"
      using lower d by (simp add: clamp_plus_def)
    with e(7,8) have b: "phi_in (i, 1) = phi_in' (i, 1)" "psi_in (i, 1) = psi_in' (i, 1)"
      by simp_all
    show ?thesis
      using ab m lower e(1,2) b by (simp add: sch_neighbours_def Let_def)
  qed
qed


lemma sch_cell_local:
  assumes d: "sch_defined c NX NY" and r: "0 \<le> i" "i < NX" "0 \<le> j" "j < NY"
    and m: "xy_in (i, j) \<noteq> 0"
    and a: "\<And>k. k \<in> set (stencil (B_COND c) NX NY (i, j)) \<Longrightarrow> phi_in k = phi_in' k \<and> psi_in k = psi_in' k"
  shows "fst (the (sch_cell c NX NY phi_in psi_in xy_in (i, j) s)) (i, j)
           = fst (the (sch_cell c NX NY phi_in' psi_in' xy_in (i, j) s')) (i, j)
      \<and> snd (the (sch_cell c NX NY phi_in psi_in xy_in (i, j) s)) (i, j)
           = snd (the (sch_cell c NX NY phi_in' psi_in' xy_in (i, j) s')) (i, j)"
proof -
  obtain po qo po' qo' where s: "s = (po, qo)" "s' = (po', qo')"
    by (cases s; cases s') auto
  consider (dir) "B_COND c = BC_DIRICHLET" | (per) "B_COND c = BC_PERIODIC"
    | (ab) "B_COND c = BC_ABSORBING" "2 \<le> NX" "2 \<le> NY"
    using d by (auto simp: sch_defined_def)
  then show ?thesis
  proof cases
    case dir
    show ?thesis
      unfolding s by (rule sch_cell_local_dirichlet [where c = c and NX = NX and NY = NY and i = i and j = j and xy_in = xy_in and phi_in = phi_in and psi_in = psi_in and phi_in' = phi_in' and psi_in' = psi_in', OF dir m a])
  next
    case per
    show ?thesis
      unfolding s by (rule sch_cell_local_periodic [where c = c and NX = NX and NY = NY and i = i and j = j and xy_in = xy_in and phi_in = phi_in and psi_in = psi_in and phi_in' = phi_in' and psi_in' = psi_in', OF per m a])
  next
    case ab
    show ?thesis
      unfolding s by (rule sch_cell_local_absorbing [where c = c and NX = NX and NY = NY and i = i and j = j and xy_in = xy_in and phi_in = phi_in and psi_in = psi_in and phi_in' = phi_in' and psi_in' = psi_in', OF ab r m a])
  qed
qed

lemma sch_evolve_wave_half_local:
  assumes d: "sch_defined c NX NY" and r: "0 \<le> i" "i < NX" "0 \<le> j" "j < NY"
    and m: "xy_in (i, j) \<noteq> 0"
    and a: "\<And>k. k \<in> set (stencil (B_COND c) NX NY (i, j)) \<Longrightarrow> phi_in k = phi_in' k \<and> psi_in k = psi_in' k"
  shows "\<exists>phi1 psi1 phi1' psi1'.
           sch_evolve_wave_half c NX NY phi_in psi_in phi_out psi_out xy_in = Some (phi1, psi1)
           \<and> sch_evolve_wave_half c NX NY phi_in' psi_in' phi_out' psi_out' xy_in = Some (phi1', psi1')
           \<and> phi1 (i, j) = phi1' (i, j) \<and> psi1 (i, j) = psi1' (i, j)"
proof -
  define va where "va = fst (the (sch_cell c NX NY phi_in psi_in xy_in (i, j) (phi_out, psi_out))) (i, j)"
  define vb where "vb = snd (the (sch_cell c NX NY phi_in psi_in xy_in (i, j) (phi_out, psi_out))) (i, j)"
  have same: "fst (the (sch_cell c NX NY phi_in psi_in xy_in (i, j) s)) (i, j) = va
      \<and> snd (the (sch_cell c NX NY phi_in psi_in xy_in (i, j) s)) (i, j) = vb" for s
    unfolding va_def vb_def
    by (rule sch_cell_local [where xy_in = xy_in and phi_in = phi_in and psi_in = psi_in
          and phi_in' = phi_in and psi_in' = psi_in, OF d r m]) simp
  have other: "fst (the (sch_cell c NX NY phi_in' psi_in' xy_in (i, j) s)) (i, j) = va
      \<and> snd (the (sch_cell c NX NY phi_in' psi_in' xy_in (i, j) s)) (i, j) = vb" for s
    unfolding va_def vb_def
    by (rule sch_cell_local [where xy_in = xy_in and phi_in = phi_in' and psi_in = psi_in'
          and phi_in' = phi_in and psi_in' = psi_in, OF d r m]) (simp add: a)
  obtain phi1 psi1 where h1:
    "sch_evolve_wave_half c NX NY phi_in psi_in phi_out psi_out xy_in = Some (phi1, psi1)"
    "phi1 (i, j) = va" "psi1 (i, j) = vb"
    using sch_evolve_wave_half_at [OF d r, where phi_in = phi_in and psi_in = psi_in
        and xy_in = xy_in and a = va and b = vb and phi_out = phi_out and psi_out = psi_out] same
    by blast
  obtain phi1' psi1' where h2:
    "sch_evolve_wave_half c NX NY phi_in' psi_in' phi_out' psi_out' xy_in = Some (phi1', psi1')"
    "phi1' (i, j) = va" "psi1' (i, j) = vb"
    using sch_evolve_wave_half_at [OF d r, where phi_in = phi_in' and psi_in = psi_in'
        and xy_in = xy_in and a = va and b = vb and phi_out = phi_out' and psi_out = psi_out'] other
    by blast
  from h1 h2 show ?thesis by simp
qed

lemma w3_bulk_cell_own:
  shows "fst s q = fst s' q \<Longrightarrow>
         fst (w3_bulk_cell c NY phi_in psi_in xy_in tcc tgamma k s) q
           = fst (w3_bulk_cell c NY phi_in psi_in xy_in tcc tgamma k s') q"
    and "snd s q = snd s' q \<Longrightarrow>
         snd (w3_bulk_cell c NY phi_in psi_in xy_in tcc tgamma k s) q
           = snd (w3_bulk_cell c NY phi_in psi_in xy_in tcc tgamma k s') q"
  by (cases k; cases s; cases s'; auto simp: Let_def)+

lemma w3_bulk_pass_own:
  assumes "1 \<le> i" "i \<le> NX - 2" "1 \<le> j" "j \<le> NY - 2"
  shows "fst (w3_bulk_pass c NX NY phi_in psi_in xy_in tcc tgamma s) (i * NY + j)
           = fst (w3_bulk_cell c NY phi_in psi_in xy_in tcc tgamma (i, j) s) (i * NY + j)"
    and "snd (w3_bulk_pass c NX NY phi_in psi_in xy_in tcc tgamma s) (i * NY + j)
           = snd (w3_bulk_cell c NY phi_in psi_in xy_in tcc tgamma (i, j) s) (i * NY + j)"
proof -
  let ?ks = "List.product [1..NX - 2] [1..NY - 2]"
  let ?body = "w3_bulk_cell c NY phi_in psi_in xy_in tcc tgamma"
  have d: "distinct ?ks"
    by (simp add: distinct_product)
  have m: "(i, j) \<in> set ?ks"
    using assms by simp
  have ne: "i * NY + j \<noteq> fst k * NY + snd k" if "k \<in> set ?ks" "k \<noteq> (i, j)" for k
  proof -
    obtain i' j' where k: "k = (i', j')" by (cases k)
    with that have "1 \<le> j'" "j' \<le> NY - 2" "i' \<noteq> i \<or> j' \<noteq> j" by auto
    then show ?thesis
      using flat_index_inj [of j NY j' i i'] assms by (auto simp: k)
  qed
  show "fst (w3_bulk_pass c NX NY phi_in psi_in xy_in tcc tgamma s) (i * NY + j)
           = fst (?body (i, j) s) (i * NY + j)"
    unfolding w3_bulk_pass_def fold_nested
  proof (rule fold_own_cell [where p = fst, OF d m])
    show "fst (?body k u) (i * NY + j) = fst u (i * NY + j)" if "k \<in> set ?ks" "k \<noteq> (i, j)" for k u
      by (rule w3_bulk_cell_frame(1) [OF ne [OF that]])
    show "fst (?body (i, j) u) (i * NY + j) = fst (?body (i, j) u') (i * NY + j)"
      if "fst u (i * NY + j) = fst u' (i * NY + j)" for u u'
      using that by (rule w3_bulk_cell_own(1))
  qed
  show "snd (w3_bulk_pass c NX NY phi_in psi_in xy_in tcc tgamma s) (i * NY + j)
           = snd (?body (i, j) s) (i * NY + j)"
    unfolding w3_bulk_pass_def fold_nested
  proof (rule fold_own_cell [where p = snd, OF d m])
    show "snd (?body k u) (i * NY + j) = snd u (i * NY + j)" if "k \<in> set ?ks" "k \<noteq> (i, j)" for k u
      by (rule w3_bulk_cell_frame(2) [OF ne [OF that]])
    show "snd (?body (i, j) u) (i * NY + j) = snd (?body (i, j) u') (i * NY + j)"
      if "snd u (i * NY + j) = snd u' (i * NY + j)" for u u'
      using that by (rule w3_bulk_cell_own(2))
  qed
qed

lemma w3_bulk_cell_value:
  assumes "TWOSPEEDS c \<or> xy_in (i * NY + j) \<noteq> 0" "1 \<le> i" "i \<le> NX - 2" "1 \<le> j" "j \<le> NY - 2"
  shows "fst (w3_bulk_cell c NY phi_in psi_in xy_in tcc tgamma (i, j) u) (i * NY + j)
           = interior_rule_clamped c NX NY phi_in psi_in tcc tgamma (i, j)"
    and "snd (w3_bulk_cell c NY phi_in psi_in xy_in tcc tgamma (i, j) u) (i * NY + j)
           = phi_in (i * NY + j)"
  using assms
  by (cases u; auto simp: interior_rule_clamped_def laplacian_clamped_def unflat_def
      clamp_plus_def clamp_minus_def Let_def algebra_simps)+


lemma w3_oscillate_corners_frame:
  assumes "q \<noteq> 0" "q \<noteq> NY - 1"
  shows "fst (w3_oscillate_corners c NY t s) q = fst s q"
    and "snd (w3_oscillate_corners c NY t s) q = snd s q"
  using assms by (cases s; simp)+

lemma w3_evolve_wave_half_bulk:
  assumes fl: "\<not> FLOOR c"
    and r: "1 \<le> i" "i \<le> NX - 2" "1 \<le> j" "j \<le> NY - 2"
    and g: "TWOSPEEDS c \<or> xy_in (i * NY + j) \<noteq> 0"
  shows "\<exists>po qo.
           w3_evolve_wave_half c NX NY t0 phi_in psi_in phi_out psi_out xy_in tc tcc tgamma
             = (t0 + 1, po, qo)
           \<and> po (i * NY + j) = interior_rule_clamped c NX NY phi_in psi_in tcc tgamma (i, j)
           \<and> qo (i * NY + j) = phi_in (i * NY + j)"
proof -
  define s1 where "s1 = w3_bulk_pass c NX NY phi_in psi_in xy_in tcc tgamma (phi_out, psi_out)"
  define s2 where "s2 = w3_left_pass c NX NY (t0 + 1) phi_in psi_in xy_in tc tcc tgamma s1"
  define s3 where "s3 = w3_right_pass c NX NY (t0 + 1) phi_in psi_in xy_in tc tcc tgamma s2"
  define s4 where "s4 = w3_top_pass c NX NY (t0 + 1) phi_in psi_in xy_in tc tcc tgamma s3"
  define s5 where "s5 = w3_bottom_pass c NX NY (t0 + 1) phi_in psi_in xy_in tc tcc tgamma s4"
  define s6 where "s6 = w3_oscillate_corners c NY (t0 + 1) s5"
  let ?k = "i * NY + j"
  have whole: "w3_evolve_wave_half c NX NY t0 phi_in psi_in phi_out psi_out xy_in tc tcc tgamma
                 = (t0 + 1, s6)"
    unfolding w3_evolve_wave_half_def Let_def
    by (simp add: fl w3_floor_pass_def s1_def s2_def s3_def s4_def s5_def s6_def)
  have "1 * NY \<le> i * NY"
    using r by (intro mult_right_mono) simp_all
  then have big: "NY + 1 \<le> ?k"
    using r by linarith
  have nl: "?k < 1 \<or> NY - 2 < ?k"
    using big by simp
  have nr: "?k \<noteq> (NX - 1) * NY + j'" if "1 \<le> j'" "j' \<le> NY - 2" for j'
    using flat_index_inj [of j NY j' i "NX - 1"] r that by auto
  have nt: "?k \<noteq> i' * NY + NY - 1" for i'
    using flat_index_neq [of j NY "NY - 1" i i'] r by simp
  have nb: "?k \<noteq> i' * NY" for i'
    using flat_index_neq [of j NY 0 i i'] r by simp
  have k0: "?k \<noteq> 0" "?k \<noteq> NY - 1"
    using big r by linarith+
  have "fst s6 ?k = fst s5 ?k" "snd s6 ?k = snd s5 ?k"
    unfolding s6_def by (rule w3_oscillate_corners_frame [OF k0])+
  moreover have "fst s5 ?k = fst s4 ?k" "snd s5 ?k = snd s4 ?k"
    unfolding s5_def by (rule w3_bottom_pass_frame [OF nb])+
  moreover have "fst s4 ?k = fst s3 ?k" "snd s4 ?k = snd s3 ?k"
    unfolding s4_def by (rule w3_top_pass_frame [OF nt])+
  moreover have "fst s3 ?k = fst s2 ?k" "snd s3 ?k = snd s2 ?k"
    unfolding s3_def by (rule w3_right_pass_frame [OF nr]; assumption)+
  moreover have "fst s2 ?k = fst s1 ?k" "snd s2 ?k = snd s1 ?k"
    unfolding s2_def by (rule w3_left_pass_frame [OF nl])+
  moreover have "fst s1 ?k = fst (w3_bulk_cell c NY phi_in psi_in xy_in tcc tgamma (i, j) (phi_out, psi_out)) ?k"
    "snd s1 ?k = snd (w3_bulk_cell c NY phi_in psi_in xy_in tcc tgamma (i, j) (phi_out, psi_out)) ?k"
    unfolding s1_def by (rule w3_bulk_pass_own [OF r])+
  moreover have "fst (w3_bulk_cell c NY phi_in psi_in xy_in tcc tgamma (i, j) (phi_out, psi_out)) ?k
      = interior_rule_clamped c NX NY phi_in psi_in tcc tgamma (i, j)"
    "snd (w3_bulk_cell c NY phi_in psi_in xy_in tcc tgamma (i, j) (phi_out, psi_out)) ?k = phi_in ?k"
    by (rule w3_bulk_cell_value [where xy_in = xy_in and i = i and j = j and NY = NY, OF g r])+
  ultimately have "fst s6 ?k = interior_rule_clamped c NX NY phi_in psi_in tcc tgamma (i, j)
      \<and> snd s6 ?k = phi_in ?k"
    by simp
  then show ?thesis
    using whole by (cases s6) auto
qed

section \<open>The initialiser of schrodinger.c\<close>

text \<open>
  \<^verbatim>\<open>init_coherent_state\<close> does what claim C5 says: for a nonzero \<open>scalex\<close> it returns, every cell
  of the grid that the membership test puts outside holds zero in both components, and every
  inside cell has a strictly positive squared magnitude (the modulus is at least \<open>1e-15\<close>).
\<close>

lemma sch_init_cell_defined:
  assumes "scalex \<noteq> 0"
  shows "sch_init_cell f m x y px py scalex k s \<noteq> None"
  using assms by (cases k; cases s) (auto simp: Let_def)

lemma sch_init_cell_other:
  assumes "scalex \<noteq> 0" "k \<noteq> q"
  shows "fst (the (sch_init_cell f m x y px py scalex k s)) q = fst s q"
    and "fst (snd (the (sch_init_cell f m x y px py scalex k s))) q = fst (snd s) q"
    and "snd (snd (the (sch_init_cell f m x y px py scalex k s))) q = snd (snd s) q"
  using assms by (cases k; cases s; auto simp: Let_def)+

lemma sch_init_cell_at:
  assumes "scalex \<noteq> 0"
  shows "snd (snd (the (sch_init_cell f m x y px py scalex (i, j) s))) (i, j)
           = m (fst (f i j)) (snd (f i j))"
    and "m (fst (f i j)) (snd (f i j)) = 0 \<Longrightarrow>
           fst (the (sch_init_cell f m x y px py scalex (i, j) s)) (i, j) = 0
           \<and> fst (snd (the (sch_init_cell f m x y px py scalex (i, j) s))) (i, j) = 0"
  using assms by (cases s; auto simp: Let_def)+


lemma sch_init_cell_own:
  assumes "scalex \<noteq> 0"
  shows "fst (the (sch_init_cell f m x y px py scalex (i, j) s)) (i, j)
           = fst (the (sch_init_cell f m x y px py scalex (i, j) s')) (i, j)"
    and "fst (snd (the (sch_init_cell f m x y px py scalex (i, j) s))) (i, j)
           = fst (snd (the (sch_init_cell f m x y px py scalex (i, j) s'))) (i, j)"
    and "snd (snd (the (sch_init_cell f m x y px py scalex (i, j) s))) (i, j)
           = snd (snd (the (sch_init_cell f m x y px py scalex (i, j) s'))) (i, j)"
  using assms by (cases s; cases s'; auto simp: Let_def)+

lemma packet_norm_pos:
  fixes a p :: real
  assumes "0 < a"
  shows "0 < (a * cos p) * (a * cos p) + (a * sin p) * (a * sin p)"
proof -
  have "(a * cos p) * (a * cos p) + (a * sin p) * (a * sin p)
          = (a * a) * (cos p)\<^sup>2 + (a * a) * (sin p)\<^sup>2"
    by (simp add: power2_eq_square)
  also have "\<dots> = (a * a) * ((cos p)\<^sup>2 + (sin p)\<^sup>2)"
    by (simp only: distrib_left)
  also have "\<dots> = a * a"
    by simp
  finally show ?thesis
    using assms by simp
qed

lemma sch_init_cell_inside:
  assumes "scalex \<noteq> 0" "m (fst (f i j)) (snd (f i j)) \<noteq> 0"
  shows "0 < norm2 (fst (the (sch_init_cell f m x y px py scalex (i, j) s)))
               (fst (snd (the (sch_init_cell f m x y px py scalex (i, j) s)))) (i, j)"
proof -
  obtain phi psi xy_in where s: "s = (phi, psi, xy_in)"
    by (cases s) auto
  define e where "e = exp (- ((fst (f i j) - x) * (fst (f i j) - x)
                                + (snd (f i j) - y) * (snd (f i j) - y)) / (scalex * scalex))"
  define a where "a = (if e < 1 / 10 ^ 15 then 1 / 10 ^ 15 else e)"
  define ph where "ph = (px * (fst (f i j) - x) + py * (snd (f i j) - y)) / scalex"
  have a: "0 < a"
    by (simp add: a_def e_def)
  have v: "fst (the (sch_init_cell f m x y px py scalex (i, j) s)) (i, j) = a * cos ph"
    "fst (snd (the (sch_init_cell f m x y px py scalex (i, j) s))) (i, j) = a * sin ph"
    unfolding s a_def e_def ph_def using assms
    by (simp_all only: sch_init_cell.simps Let_def fun_upd_same fst_conv snd_conv option.sel
        if_True if_False simp_thms)
  show ?thesis
    unfolding norm2_def v by (rule packet_norm_pos [OF a])
qed

lemma sch_init_coherent_state_cells:
  assumes sc: "scalex \<noteq> 0" and r: "0 \<le> i" "i < NX" "0 \<le> j" "j < NY"
  shows "\<exists>phi psi xy_in.
           sch_init_coherent_state f m NX NY x y px py scalex s = Some (phi, psi, xy_in)
           \<and> xy_in (i, j) = m (fst (f i j)) (snd (f i j))
           \<and> (xy_in (i, j) = 0 \<longrightarrow> phi (i, j) = 0 \<and> psi (i, j) = 0)
           \<and> (xy_in (i, j) \<noteq> 0 \<longrightarrow> 0 < norm2 phi psi (i, j))"
proof -
  let ?body = "\<lambda>k s. the (sch_init_cell f m x y px py scalex k s)"
  let ?ks = "List.product [0..NX - 1] [0..NY - 1]"
  let ?r = "fold ?body ?ks s"
  have run: "sch_init_coherent_state f m NX NY x y px py scalex s = Some ?r"
    unfolding sch_init_coherent_state_def
    by (rule for_each_nested) (rule sch_init_cell_defined [OF sc])
  have d: "distinct ?ks"
    by (simp add: distinct_product)
  have mem: "(i, j) \<in> set ?ks"
    using r by simp
  have p1: "fst ?r (i, j) = fst (?body (i, j) s) (i, j)"
  proof (rule fold_own_cell [where p = fst, OF d mem])
    show "fst (?body k u) (i, j) = fst u (i, j)" if "k \<in> set ?ks" "k \<noteq> (i, j)" for k u
      by (rule sch_init_cell_other(1) [OF sc that(2)])
    show "fst (?body (i, j) u) (i, j) = fst (?body (i, j) u') (i, j)" for u u'
      by (rule sch_init_cell_own(1) [OF sc])
  qed
  have p2: "fst (snd ?r) (i, j) = fst (snd (?body (i, j) s)) (i, j)"
  proof (rule fold_own_cell [where p = "\<lambda>s. fst (snd s)", OF d mem])
    show "fst (snd (?body k u)) (i, j) = fst (snd u) (i, j)" if "k \<in> set ?ks" "k \<noteq> (i, j)" for k u
      by (rule sch_init_cell_other(2) [OF sc that(2)])
    show "fst (snd (?body (i, j) u)) (i, j) = fst (snd (?body (i, j) u')) (i, j)" for u u'
      by (rule sch_init_cell_own(2) [OF sc])
  qed
  have p3: "snd (snd ?r) (i, j) = snd (snd (?body (i, j) s)) (i, j)"
  proof (rule fold_own_cell [where p = "\<lambda>s. snd (snd s)", OF d mem])
    show "snd (snd (?body k u)) (i, j) = snd (snd u) (i, j)" if "k \<in> set ?ks" "k \<noteq> (i, j)" for k u
      by (rule sch_init_cell_other(3) [OF sc that(2)])
    show "snd (snd (?body (i, j) u)) (i, j) = snd (snd (?body (i, j) u')) (i, j)" for u u'
      by (rule sch_init_cell_own(3) [OF sc])
  qed
  have m3: "snd (snd ?r) (i, j) = m (fst (f i j)) (snd (f i j))"
    unfolding p3 by (rule sch_init_cell_at(1) [OF sc])
  have z: "fst ?r (i, j) = 0 \<and> fst (snd ?r) (i, j) = 0" if "m (fst (f i j)) (snd (f i j)) = 0"
    unfolding p1 p2 using sc that by (rule sch_init_cell_at(2))
  have n: "0 < norm2 (fst ?r) (fst (snd ?r)) (i, j)" if "m (fst (f i j)) (snd (f i j)) \<noteq> 0"
    using sch_init_cell_inside [where m = m and f = f and i = i and j = j and s = s and x = x and y = y
        and px = px and py = py, OF sc that] by (simp add: norm2_def p1 p2)
  obtain phi psi xy_in where rr: "?r = (phi, psi, xy_in)"
    by (cases ?r) auto
  show ?thesis
    using run m3 z n unfolding rr by auto
qed

end
